theory Spec2Isabelle
  imports Complex_Main
begin

section \<open>Data model\<close>

text \<open>
  The orchestrator \<^verbatim>\<open>Game\<close> (\<^verbatim>\<open>src/js/Game/Game.js\<close>) drives eight managers whose
  classes live in other files of the repository.  Numbers are JavaScript numbers; they are
  idealised here as reals, and every division states what happens when the divisor is zero.
\<close>

type_synonym vec3 = "real \<times> real \<times> real"

datatype error =
    TypeError string
  | ReferenceError string
  | AssetLoadError string string
  | DuplicateIdentifierError string
  | EngineError string

text \<open>
  \<^verbatim>\<open>new Model(identifier, path, scale, position)\<close> and the option objects handed to
  \<^verbatim>\<open>createBasicShape\<close>: the asset descriptor of the specification.
\<close>

record descriptor =
  d_identifier :: string
  d_sourcePath :: string
  d_scale :: real
  d_position :: vec3

text \<open>A loaded asset: what a manager retains and what the scene wraps as a node.\<close>

record asset =
  asset_id :: string
  asset_handle :: string
  asset_position :: vec3

section \<open>LoadCoordinator\<close>

text \<open>
  Modelled from the spec: the load coordinator behind \<^verbatim>\<open>ModelManager.loadModels\<close> and
  \<^verbatim>\<open>GeometryManager.loadGeometries\<close>, which \<^verbatim>\<open>Game.init\<close> calls but whose classes
  are not part of the source at hand.  The specification describes a LoadCoordinator
  working on a LoadBatch \<open>{total count, completed count, failure (optional),
  continuation}\<close>: loads complete one at a time in any order, the continuation fires once
  all have succeeded with the results in the order of the descriptors, the first failure
  settles the batch with \<open>AssetLoadError{identifier, cause}\<close>, and completions that
  arrive after a failure are no-ops.  The outcome of one load, the settlement of a batch
  (what its continuation is fired with) and the batch itself:
\<close>

datatype outcome = Loaded asset | Failed string

datatype settlement = Resolved "asset list" | Rejected error

record load_batch =
  descriptors :: "descriptor list"
  total :: nat
  slots :: "asset option list"
  completed :: nat
  failure :: "error option"

text \<open>
  Modelled from the spec: the creation of the LoadBatch for the descriptors submitted (the
  coordinator is not part of the source at hand).  A batch of no load is settled at once.
\<close>

definition submit :: "descriptor list \<Rightarrow> load_batch \<times> settlement option" where
  "submit descs =
     (\<lparr>descriptors = descs, total = length descs,
       slots = replicate (length descs) None, completed = 0, failure = None\<rparr>,
      if length descs = 0 then Some (Resolved []) else None)"

text \<open>
  Modelled from the spec: the completion of the load at position \<open>i\<close> (the coordinator
  is not part of the source at hand).  It is a no-op after a failure, for a position
  outside the batch and for a load that has already completed; a failure settles the batch
  with the identifier of the descriptor and the cause; a success fills the slot of the
  position, and the last one to arrive settles the batch with the slots in their order.
\<close>

definition complete_load :: "nat \<Rightarrow> outcome \<Rightarrow> load_batch \<Rightarrow> load_batch \<times> settlement option" where
  "complete_load i out b =
     (if failure b \<noteq> None then (b, None)
      else if total b \<le> i then (b, None)
      else if slots b ! i \<noteq> None then (b, None)
      else (case out of
              Failed cause \<Rightarrow>
                (let e = AssetLoadError (d_identifier (descriptors b ! i)) cause
                 in (b\<lparr>failure := Some e\<rparr>, Some (Rejected e)))
            | Loaded a \<Rightarrow>
                (let b' = b\<lparr>slots := (slots b)[i := Some a], completed := completed b + 1\<rparr>
                 in (b', if completed b' = total b'
                         then Some (Resolved (map the (slots b'))) else None))))"

definition outcome_of :: "string + asset \<Rightarrow> outcome" where
  "outcome_of r = (case r of Inl cause \<Rightarrow> Failed cause | Inr a \<Rightarrow> Loaded a)"

definition fired :: "settlement option \<Rightarrow> settlement list" where
  "fired x = (case x of None \<Rightarrow> [] | Some s \<Rightarrow> [s])"

text \<open>
  Modelled from the spec: the contract \<open>awaitAll(descriptors, onEach)\<close> of the
  coordinator, which is not part of the source at hand.  \<open>onEach\<close> is the loader, giving
  for a descriptor the cause of the failure or the asset.  \<open>deliver onEach order b\<close>
  feeds the batch the completions of the loads in the order \<open>order\<close> (a list of
  positions in the descriptor list) and collects every settlement the batch signals;
  \<open>awaitAll\<close> is the submission followed by the deliveries.
\<close>

fun deliver :: "(descriptor \<Rightarrow> string + asset) \<Rightarrow> nat list \<Rightarrow> load_batch \<Rightarrow> settlement list" where
  "deliver onEach [] b = []"
| "deliver onEach (i # rest) b =
     (if total b \<le> i then deliver onEach rest b
      else (let (b', s) = complete_load i (outcome_of (onEach (descriptors b ! i))) b
            in fired s @ deliver onEach rest b'))"

definition awaitAll ::
  "descriptor list \<Rightarrow> (descriptor \<Rightarrow> string + asset) \<Rightarrow> nat list \<Rightarrow> settlement list" where
  "awaitAll descs onEach order =
     (let (b, s) = submit descs in fired s @ deliver onEach order b)"

section \<open>SceneComposer\<close>

text \<open>
  Modelled from the spec: \<^verbatim>\<open>SceneManager.addThings\<close> is called three times by the
  continuation in \<^verbatim>\<open>Game.init\<close> (geometries, then models, then lights); its class is
  not part of the source at hand.  The specification describes the composer as owning the
  mapping from identifier to node, with a deterministic insertion order, and as failing fast
  with \<open>DuplicateIdentifierError{identifier}\<close> instead of overwriting a node.  The scene
  graph is the list of nodes in insertion order; the identifier index is the lookup in it.
\<close>

text \<open>
  Modelled from the spec: the lookup in the identifier index, as
  \<^verbatim>\<open>ModelManager.getModelReferenceByIdentifier\<close> does it for \<^verbatim>\<open>Game.init\<close> (the class
  is not part of the source at hand): the node of that exact name, or nothing.
\<close>

definition getByIdentifier :: "string \<Rightarrow> asset list \<Rightarrow> asset option" where
  "getByIdentifier name things = find (\<lambda>a. asset_id a = name) things"

text \<open>
  Modelled from the spec: \<^verbatim>\<open>SceneManager.addThings\<close> (not part of the source at hand)
  inserts the things one after the other and fails at the first whose identifier is
  already in the graph.
\<close>

fun addThings :: "asset list \<Rightarrow> asset list \<Rightarrow> error + asset list" where
  "addThings [] graph = Inr graph"
| "addThings (t # ts) graph =
     (if getByIdentifier (asset_id t) graph \<noteq> None
      then Inl (DuplicateIdentifierError (asset_id t))
      else addThings ts (graph @ [t]))"

text \<open>
  The composition as \<^verbatim>\<open>Game.init\<close> performs it (lines 141 to 143), on a fresh graph.
\<close>

definition compose :: "asset list \<Rightarrow> asset list \<Rightarrow> asset list \<Rightarrow> error + asset list" where
  "compose geoms mods lits =
     (case addThings geoms [] of
        Inl e \<Rightarrow> Inl e
      | Inr g1 \<Rightarrow>
          (case addThings mods g1 of
             Inl e \<Rightarrow> Inl e
           | Inr g2 \<Rightarrow> addThings lits g2))"

section \<open>RaycastResolver\<close>

text \<open>
  Modelled from the spec: \<^verbatim>\<open>RaycasterManager.getTouchedElementIdentifier\<close> is called by
  \<^verbatim>\<open>Game.onTouchEnd\<close>; its class is not part of the source at hand.  The ray and the
  intersection test belong to the rendering engine, so the test is a parameter: for a node
  it gives the ray-parameter distance of the hit, or nothing.  The resolver walks the nodes
  in the graph's order and keeps the hit with the least distance, the earlier node winning
  a tie; without a hit the answer is \<open>none\<close>.
\<close>

text \<open>
  Modelled from the spec: the camera of \<^verbatim>\<open>CameraManager\<close> (not part of the source at
  hand) holds a position and an orientation target, unset until \<^verbatim>\<open>setPosition\<close> and
  \<^verbatim>\<open>lookAtSomething\<close> are called, and the aspect that \<^verbatim>\<open>resizeViewport\<close> assigns.
  A pointer is the pair that \<^verbatim>\<open>onTouchEnd\<close> stores in \<^verbatim>\<open>this._mouse\<close>.
\<close>

record camera =
  cam_position :: "vec3 option"
  cam_target :: "vec3 option"
  cam_aspect :: "real option"

type_synonym pointer = "real option \<times> real option"

text \<open>
  Modelled from the spec: the selection among the hits, of the resolver that is not part of
  the source at hand.  \<open>best\<close> is the nearest hit so far; a later hit replaces it only
  if it is strictly nearer.
\<close>

fun nearest :: "(asset \<Rightarrow> real option) \<Rightarrow> asset list \<Rightarrow> (string \<times> real) option \<Rightarrow> (string \<times> real) option" where
  "nearest test [] best = best"
| "nearest test (n # ns) best =
     (case test n of
        None \<Rightarrow> nearest test ns best
      | Some d \<Rightarrow>
          (case best of
             None \<Rightarrow> nearest test ns (Some (asset_id n, d))
           | Some (b, bd) \<Rightarrow>
               if d < bd then nearest test ns (Some (asset_id n, d))
               else nearest test ns best))"

text \<open>
  Modelled from the spec: the contract \<open>resolve(pointer, camera, sceneGraph)\<close> and the
  method \<^verbatim>\<open>RaycasterManager.getTouchedElementIdentifier\<close> (not part of the source at
  hand), which answers with the identifier or with \<open>none\<close>.
\<close>

definition resolve ::
  "(pointer \<Rightarrow> camera \<Rightarrow> asset \<Rightarrow> real option) \<Rightarrow> pointer \<Rightarrow> camera \<Rightarrow> asset list \<Rightarrow> string option" where
  "resolve intersect p cam graph = map_option fst (nearest (intersect p cam) graph None)"

definition getTouchedElementIdentifier ::
  "(pointer \<Rightarrow> camera \<Rightarrow> asset \<Rightarrow> real option) \<Rightarrow> asset list \<Rightarrow> pointer \<Rightarrow> camera \<Rightarrow> string" where
  "getTouchedElementIdentifier intersect graph p cam =
     (case resolve intersect p cam graph of None \<Rightarrow> ''none'' | Some name \<Rightarrow> name)"

section \<open>Game\<close>

text \<open>
  The state of a \<^verbatim>\<open>Game\<close> object together with the parts of the page it touches: the
  cover element, the pending permission promise, the size of the window, the animation
  frames that were requested and not yet delivered, and the console.  The managers are
  represented by what \<^verbatim>\<open>Game.js\<close> reads from them: \<^verbatim>\<open>geometryManager.geometries\<close>,
  \<^verbatim>\<open>modelManager.models\<close>, \<^verbatim>\<open>lightingManager.lights\<close>, \<^verbatim>\<open>sceneManager.scene\<close>,
  \<^verbatim>\<open>cameraManager.camera\<close> and whether \<^verbatim>\<open>controlsManager.controls\<close> is bound to the
  camera, and by the batch of loads that each of the two loading managers has under way.
  \<open>ticks\<close> is the history of the iterations of the render loop: what each one was given
  to draw and how it ended.
\<close>

record renderer =
  antialias :: bool
  shadowMap_enabled :: bool
  renderer_size :: "real \<times> real"

record tick =
  t_scene :: "asset list"
  t_camera :: camera
  t_controls :: bool
  t_error :: "error option"

record game =
  debugMode :: bool
  highPerf :: bool
  mouse :: pointer
  stats :: "(nat \<times> nat) option"
  debuglogs :: "string list option"
  renderer :: "renderer option"
  geometries :: "asset list"
  geometry_batch :: "load_batch option"
  models :: "asset list"
  model_batch :: "load_batch option"
  lights :: "asset list"
  scene :: "asset list"
  camera :: camera
  controls :: bool
  sounds :: "(string \<times> string option) list"
  cover :: bool
  permission_pending :: bool
  window :: "real \<times> real"
  frames :: nat
  ticks :: "tick list"
  console :: "string list"

text \<open>
  What the page and the engine decide: whether the global \<^verbatim>\<open>DeviceOrientationEvent\<close> is
  declared and, if it is, whether its \<^verbatim>\<open>requestPermission\<close> is a function; the engine's
  intersection test; and at which iterations of the loop the controls update or the render
  primitive throws (with the message).
\<close>

datatype device_orientation = Undeclared | WithoutRequestPermission | WithRequestPermission

record host =
  deviceOrientationEvent :: device_orientation
  intersect :: "pointer \<Rightarrow> camera \<Rightarrow> asset \<Rightarrow> real option"
  update_throws :: "nat \<Rightarrow> string option"
  render_throws :: "nat \<Rightarrow> string option"

text \<open>
  What the page delivers to the game: a click on the cover, the settlement of the
  permission promise (fulfilled with a response, or rejected with a reason), the completion
  of the load of the geometry or of the model at a position of its batch (with success, or
  with the cause of the failure), an animation frame, a touchend event with its
  \<^verbatim>\<open>changedTouches\<close> (the \<^verbatim>\<open>clientX\<close> and \<^verbatim>\<open>clientY\<close> of each), and a resize of
  the window to a width and a height.
\<close>

datatype event =
    Click
  | PermissionResponse string
  | PermissionRejected string
  | GeometryLoaded nat
  | GeometryFailed nat string
  | ModelLoaded nat
  | ModelFailed nat string
  | AnimationFrame
  | TouchEnd "(real \<times> real) list"
  | Resize real real

text \<open>What \<^verbatim>\<open>console.error\<close> prints for an error.\<close>

definition describe :: "error \<Rightarrow> string" where
  "describe e =
     (case e of
        TypeError m \<Rightarrow> ''TypeError: '' @ m
      | ReferenceError m \<Rightarrow> ''ReferenceError: '' @ m
      | AssetLoadError n c \<Rightarrow> ''AssetLoadError: '' @ n @ '': '' @ c
      | DuplicateIdentifierError n \<Rightarrow> ''DuplicateIdentifierError: '' @ n
      | EngineError m \<Rightarrow> ''Error: '' @ m)"

text \<open>
  A JavaScript quotient is not a finite number when the divisor is zero; \<open>None\<close> stands
  for that outcome.
\<close>

definition js_div :: "real \<Rightarrow> real \<Rightarrow> real option" where
  "js_div a b = (if b = 0 then None else Some (a / b))"

subsection \<open>The constructor (lines 26 to 92)\<close>

text \<open>
  The state after the constructor has run on a page that has the cover element.  The
  debug widgets exist in debug mode only.  The three listeners it registers are the cases
  \<open>Click\<close>, \<open>Resize\<close> and \<open>TouchEnd\<close> of \<open>step\<close> below.
\<close>

definition constructor :: "bool \<Rightarrow> bool \<Rightarrow> real \<times> real \<Rightarrow> game" where
  "constructor isDebugMode isHighPerf win =
     \<lparr>debugMode = isDebugMode, highPerf = isHighPerf, mouse = (Some 0, Some 0),
      stats = (if isDebugMode then Some (0, 0) else None),
      debuglogs = (if isDebugMode then Some [] else None),
      renderer = None, geometries = [], geometry_batch = None, models = [],
      model_batch = None, lights = [],
      scene = [],
      camera = \<lparr>cam_position = None, cam_target = None, cam_aspect = None\<rparr>,
      controls = False, sounds = [], cover = True, permission_pending = False,
      window = win, frames = 0, ticks = [], console = [''Game constructor'']\<rparr>"

subsection \<open>The render loop (lines 223 to 232)\<close>

text \<open>
  \<^verbatim>\<open>requestAnimationFrame\<close> is the first statement; \<^verbatim>\<open>stats.begin\<close> and \<^verbatim>\<open>stats.end\<close>
  run in debug mode only; an exception of \<^verbatim>\<open>controls.update\<close> or of
  \<^verbatim>\<open>renderer.render\<close> leaves the function at once, and nothing in it catches or logs.
\<close>

text \<open>
  \<^verbatim>\<open>this._debugMode && this.stats.begin()\<close> and the same for \<^verbatim>\<open>end\<close>: the widget
  counts the calls of each.
\<close>

definition stats_begin :: "game \<Rightarrow> error + game" where
  "stats_begin g =
     (if debugMode g
      then (case stats g of
              None \<Rightarrow> Inl (TypeError ''this.stats is undefined'')
            | Some (b, e) \<Rightarrow> Inr (g\<lparr>stats := Some (b + 1, e)\<rparr>))
      else Inr g)"

definition stats_end :: "game \<Rightarrow> error + game" where
  "stats_end g =
     (if debugMode g
      then (case stats g of
              None \<Rightarrow> Inl (TypeError ''this.stats is undefined'')
            | Some (b, e) \<Rightarrow> Inr (g\<lparr>stats := Some (b, e + 1)\<rparr>))
      else Inr g)"

text \<open>The end of a tick, with the error that leaves it if any, entered in the history.\<close>

definition ended :: "error option \<Rightarrow> game \<Rightarrow> error option \<times> game" where
  "ended e g =
     (e, g\<lparr>ticks := ticks g @
            [\<lparr>t_scene = scene g, t_camera = camera g, t_controls = controls g, t_error = e\<rparr>]\<rparr>)"

text \<open>
  \<^verbatim>\<open>_loop\<close>.  The number of the tick decides, through the host, whether the update of
  the controls or the render primitive throws.
\<close>

definition loop :: "host \<Rightarrow> game \<Rightarrow> error option \<times> game" where
  "loop h g =
     (let n = length (ticks g);
          g1 = g\<lparr>frames := frames g + 1\<rparr>
      in case stats_begin g1 of
           Inl e \<Rightarrow> ended (Some e) g1
         | Inr g2 \<Rightarrow>
             (case update_throws h n of
                Some m \<Rightarrow> ended (Some (EngineError m)) g2
              | None \<Rightarrow>
                  (case renderer g2 of
                     None \<Rightarrow> ended (Some (TypeError ''this.renderer is undefined'')) g2
                   | Some r \<Rightarrow>
                       (case render_throws h n of
                          Some m \<Rightarrow> ended (Some (EngineError m)) g2
                        | None \<Rightarrow>
                            (case stats_end g2 of
                               Inl e \<Rightarrow> ended (Some e) g2
                             | Inr g3 \<Rightarrow> ended None g3)))))"

subsection \<open>Initialisation (lines 97 to 183)\<close>

text \<open>
  Modelled from the spec: the classes \<^verbatim>\<open>GeometryManager\<close>, \<^verbatim>\<open>LightingManager\<close> and
  \<^verbatim>\<open>Model\<close> are not part of the source at hand.  What \<^verbatim>\<open>createBasicGroundSurface\<close>,
  \<^verbatim>\<open>createCubeSkybox\<close> and \<^verbatim>\<open>createBasicShape\<close> return is taken to be the descriptor
  of a geometry, and what \<^verbatim>\<open>createSpotLight\<close> builds to be an asset, with the identifier
  that \<^verbatim>\<open>Game.init\<close> passes (the skybox, which is passed none, is named \<open>Skybox\<close> as
  in the specification's scenario), at the position passed, or at the origin when none is.
  The values are those of lines 108 to 135.  \<open>created_geometries\<close> are the assets of the
  four geometries once loaded.
\<close>

definition geometry_descriptors :: "descriptor list" where
  "geometry_descriptors =
     [\<lparr>d_identifier = ''Ground'', d_sourcePath = ''textures/grass_dirt.jpg'', d_scale = 1,
       d_position = (0, 0, 0)\<rparr>,
      \<lparr>d_identifier = ''Skybox'', d_sourcePath = [], d_scale = 1, d_position = (0, 0, 0)\<rparr>,
      \<lparr>d_identifier = ''GreenCube'', d_sourcePath = [], d_scale = 1,
       d_position = (- 1 / 2, 1 / 2, 5 / 2)\<rparr>,
      \<lparr>d_identifier = ''BlueWall'', d_sourcePath = [], d_scale = 1,
       d_position = (0, 5 / 2, - 11)\<rparr>]"

definition created_geometries :: "asset list" where
  "created_geometries =
     [\<lparr>asset_id = ''Ground'', asset_handle = ''textures/grass_dirt.jpg'', asset_position = (0, 0, 0)\<rparr>,
      \<lparr>asset_id = ''Skybox'', asset_handle = [], asset_position = (0, 0, 0)\<rparr>,
      \<lparr>asset_id = ''GreenCube'', asset_handle = [], asset_position = (- 1 / 2, 1 / 2, 5 / 2)\<rparr>,
      \<lparr>asset_id = ''BlueWall'', asset_handle = [], asset_position = (0, 5 / 2, - 11)\<rparr>]"

definition model_descriptors :: "descriptor list" where
  "model_descriptors =
     [\<lparr>d_identifier = ''Fox'', d_sourcePath = ''models/Fox.glb'', d_scale = 2 / 100,
       d_position = (0, 0, 0)\<rparr>,
      \<lparr>d_identifier = ''IceTruck'', d_sourcePath = ''models/CesiumMilkTruck.glb'',
       d_scale = 3 / 2, d_position = (- 5, 0, 0)\<rparr>]"

definition created_light :: asset where
  "created_light =
     \<lparr>asset_id = ''MainSpotLight'', asset_handle = [], asset_position = (20, 20, 0)\<rparr>"

text \<open>
  Modelled from the spec: the asset that the load of a descriptor produces when it succeeds
  (the loader is not part of the source at hand); it carries the identifier of its
  descriptor.
\<close>

definition instantiate :: "descriptor \<Rightarrow> asset" where
  "instantiate d =
     \<lparr>asset_id = d_identifier d, asset_handle = d_sourcePath d, asset_position = d_position d\<rparr>"

text \<open>
  Modelled from the spec: \<^verbatim>\<open>modelManager.models\<close> and \<^verbatim>\<open>geometryManager.geometries\<close>,
  of classes that are not part of the source at hand: the loads of the batch that have
  succeeded so far are retained by the manager, in the order of the descriptors.
\<close>

definition retained :: "load_batch \<Rightarrow> asset list" where
  "retained b = concat (map (\<lambda>x. case x of None \<Rightarrow> [] | Some a \<Rightarrow> [a]) (slots b))"

text \<open>
  Modelled from the spec: \<^verbatim>\<open>LightingManager.createSpotLight\<close>, which is not part of
  the source at hand: the light it builds is retained by the manager.
\<close>

definition createSpotLight :: "asset \<Rightarrow> game \<Rightarrow> game" where
  "createSpotLight light g = g\<lparr>lights := lights g @ [light]\<rparr>"

text \<open>
  Modelled from the spec: \<^verbatim>\<open>GeometryManager.loadGeometries\<close>, which is not part of the
  source at hand.  The specification makes the geometries a class of independently loading
  assets of the load coordinator: the call submits them as one batch, each load completes
  later, with success or with a failure, and \<^verbatim>\<open>geometryManager.geometries\<close> holds the
  loads of the batch that have succeeded so far.  \<^verbatim>\<open>Game.init\<close> (line 137) hands the call
  no continuation, so the settlement of this batch reaches no code of the game.
\<close>

definition loadGeometries :: "descriptor list \<Rightarrow> game \<Rightarrow> game" where
  "loadGeometries descs g =
     (let (b, s) = submit descs
      in g\<lparr>geometry_batch := Some b, geometries := retained b\<rparr>)"

text \<open>
  Modelled from the spec: \<^verbatim>\<open>CameraManager.setPosition\<close>,
  \<^verbatim>\<open>CameraManager.lookAtSomething\<close> and \<^verbatim>\<open>ControlsManager.initDeviceOrientation\<close>,
  which are not part of the source at hand: the camera holds a position and an orientation
  target, and the controls are bound to the camera.
\<close>

definition setPosition :: "vec3 \<Rightarrow> game \<Rightarrow> game" where
  "setPosition p g = g\<lparr>camera := (camera g)\<lparr>cam_position := Some p\<rparr>\<rparr>"

definition lookAtSomething :: "vec3 \<Rightarrow> game \<Rightarrow> game" where
  "lookAtSomething p g = g\<lparr>camera := (camera g)\<lparr>cam_target := Some p\<rparr>\<rparr>"

definition initDeviceOrientation :: "game \<Rightarrow> game" where
  "initDeviceOrientation g = g\<lparr>controls := True\<rparr>"

text \<open>\<^verbatim>\<open>fox.position.x = 2\<close> changes the one object that the lookup returned.\<close>

fun setX :: "string \<Rightarrow> real \<Rightarrow> asset list \<Rightarrow> asset list" where
  "setX name x [] = []"
| "setX name x (a # rest) =
     (if asset_id a = name
      then a\<lparr>asset_position := (x, snd (asset_position a))\<rparr> # rest
      else a # setX name x rest)"

text \<open>
  The body of the continuation up to the start of the loop (lines 140 to 178): the three
  \<^verbatim>\<open>addThings\<close>, the camera, the controls, the fox (the same object in the manager and
  in the scene) and the two sounds, of which only the creation is recorded.  An exception
  leaves the continuation at the statement that throws.
\<close>

definition prepare :: "game \<Rightarrow> error option \<times> game" where
  "prepare g =
     (case addThings (geometries g) (scene g) of
        Inl e \<Rightarrow> (Some e, g)
      | Inr s1 \<Rightarrow>
     (case addThings (models g) s1 of
        Inl e \<Rightarrow> (Some e, g\<lparr>scene := s1\<rparr>)
      | Inr s2 \<Rightarrow>
     (case addThings (lights g) s2 of
        Inl e \<Rightarrow> (Some e, g\<lparr>scene := s2\<rparr>)
      | Inr s3 \<Rightarrow>
         (let g1 = initDeviceOrientation
                     (lookAtSomething (0, 5, 0) (setPosition (3, 5, 10) (g\<lparr>scene := s3\<rparr>)))
          in case getByIdentifier ''Fox'' (models g1) of
               None \<Rightarrow> (Some (TypeError ''fox is undefined''), g1)
             | Some fox \<Rightarrow>
                 (None,
                  g1\<lparr>models := setX ''Fox'' 2 (models g1),
                     scene := setX ''Fox'' 2 (scene g1),
                     sounds := sounds g1 @
                       [(''sounds/birds.mp3'', None),
                        (''sounds/car.wav'',
                         map_option asset_id (getByIdentifier ''IceTruck'' (models g1)))]\<rparr>)))))"

text \<open>The continuation handed to \<^verbatim>\<open>loadModels\<close>: the preparation, then the first tick.\<close>

definition continuation :: "host \<Rightarrow> game \<Rightarrow> error option \<times> game" where
  "continuation h g =
     (case prepare g of
        (Some e, g1) \<Rightarrow> (Some e, g1)
      | (None, g1) \<Rightarrow> loop h g1)"

text \<open>
  Modelled from the spec: what a settlement of the batch of \<^verbatim>\<open>ModelManager.loadModels\<close>
  (not part of the source at hand) does to the game.  Success fires the continuation.  For
  a failure \<^verbatim>\<open>Game.init\<close> (line 139) registers nothing, and it drops what the call
  returns: the failure stays the settlement of the batch and reaches no code of the game.
\<close>

definition on_settled :: "host \<Rightarrow> settlement option \<Rightarrow> game \<Rightarrow> error option \<times> game" where
  "on_settled h s g =
     (case s of
        None \<Rightarrow> (None, g)
      | Some (Resolved loaded) \<Rightarrow> continuation h g
      | Some (Rejected e) \<Rightarrow> (None, g))"

text \<open>
  Modelled from the spec: \<^verbatim>\<open>ModelManager.loadModels\<close>, not part of the source at hand,
  submits the descriptors as one batch of the load coordinator.
\<close>

definition loadModels :: "host \<Rightarrow> descriptor list \<Rightarrow> game \<Rightarrow> error option \<times> game" where
  "loadModels h descs g =
     (let (b, s) = submit descs
      in on_settled h s (g\<lparr>model_batch := Some b, models := retained b\<rparr>))"

text \<open>
  \<^verbatim>\<open>init\<close>: the renderer, the light, the geometries, the models, in the order of the
  source.
\<close>

definition init :: "host \<Rightarrow> game \<Rightarrow> error option \<times> game" where
  "init h g =
     (let g1 = g\<lparr>renderer := Some \<lparr>antialias = highPerf g, shadowMap_enabled = True,
                                     renderer_size = window g\<rparr>\<rparr>;
          g2 = createSpotLight created_light g1;
          g3 = loadGeometries geometry_descriptors g2
      in loadModels h model_descriptors g3)"

text \<open>
  Modelled from the spec: what \<^verbatim>\<open>ModelManager\<close> (not part of the source at hand) does
  when the load of the model at position \<open>i\<close> of its batch completes, with the cause of
  the failure if it failed: the coordinator records the completion, the manager retains
  what has loaded, and a settlement of the batch is handled as above.  A completion that
  the batch ignores changes nothing.
\<close>

definition model_completed :: "host \<Rightarrow> nat \<Rightarrow> string option \<Rightarrow> game \<Rightarrow> error option \<times> game" where
  "model_completed h i cause g =
     (case model_batch g of
        None \<Rightarrow> (None, g)
      | Some b \<Rightarrow>
          if total b \<le> i then (None, g)
          else (let out = (case cause of
                             None \<Rightarrow> Loaded (instantiate (descriptors b ! i))
                           | Some c \<Rightarrow> Failed c);
                    (b1, s) = complete_load i out b
                in if b1 = b then (None, g)
                   else on_settled h s (g\<lparr>model_batch := Some b1, models := retained b1\<rparr>)))"

text \<open>
  Modelled from the spec: what \<^verbatim>\<open>GeometryManager\<close> (not part of the source at hand)
  does when the load of the geometry at position \<open>i\<close> of its batch completes.  No
  continuation waits for this batch: the coordinator records the completion, the manager
  retains what has loaded, and that is all.
\<close>

definition geometry_completed :: "nat \<Rightarrow> string option \<Rightarrow> game \<Rightarrow> error option \<times> game" where
  "geometry_completed i cause g =
     (case geometry_batch g of
        None \<Rightarrow> (None, g)
      | Some b \<Rightarrow>
          if total b \<le> i then (None, g)
          else (let out = (case cause of
                             None \<Rightarrow> Loaded (instantiate (descriptors b ! i))
                           | Some c \<Rightarrow> Failed c);
                    (b1, s) = complete_load i out b
                in if b1 = b then (None, g)
                   else (None, g\<lparr>geometry_batch := Some b1, geometries := retained b1\<rparr>)))"

subsection \<open>The callbacks (lines 190 to 215)\<close>

text \<open>\<^verbatim>\<open>resizeViewport\<close>, for the size that the window has.\<close>

definition resizeViewport :: "game \<Rightarrow> error option \<times> game" where
  "resizeViewport g =
     (let (width, height) = window g
      in case renderer g of
           None \<Rightarrow> (Some (TypeError ''this.renderer is undefined''), g)
         | Some r \<Rightarrow>
             (None, g\<lparr>renderer := Some (r\<lparr>renderer_size := (width, height)\<rparr>),
                      camera := (camera g)\<lparr>cam_aspect := js_div width height\<rparr>\<rparr>))"

text \<open>
  \<^verbatim>\<open>onTouchEnd\<close>: the first changed touch is brought to normalized device coordinates
  with lines 206 and 207, handed to the resolver, and the answer is logged.
\<close>

definition normalize :: "real \<times> real \<Rightarrow> real \<times> real \<Rightarrow> pointer" where
  "normalize touch win =
     (map_option (\<lambda>q. q * 2 - 1) (js_div (fst touch) (fst win)),
      map_option (\<lambda>q. - q * 2 + 1) (js_div (snd touch) (snd win)))"

definition onTouchEnd :: "host \<Rightarrow> (real \<times> real) list \<Rightarrow> game \<Rightarrow> error option \<times> game" where
  "onTouchEnd h changedTouches g =
     (case changedTouches of
        [] \<Rightarrow> (Some (TypeError ''event.changedTouches[0] is undefined''), g)
      | touch # others \<Rightarrow>
          (let g1 = g\<lparr>mouse := normalize touch (window g)\<rparr>;
               touched = getTouchedElementIdentifier (intersect h) (scene g1) (mouse g1) (camera g1)
           in case debuglogs g1 of
                None \<Rightarrow> (Some (TypeError ''this._debuglogs is undefined''), g1)
              | Some logs \<Rightarrow>
                  (None, g1\<lparr>debuglogs := Some (logs @ [''RayCast -> '' @ touched]),
                            console := console g1 @ [touched]\<rparr>)))"

subsection \<open>Events\<close>

text \<open>
  One step delivers one event to its listener and gives the error that escaped the
  listener, if any.  A click reaches the cover only while it is in the page; the permission
  promise settles only while it is pending; a frame is delivered only if one was requested.
  The click listener is lines 67 to 87.  Line 72 reads a property of the global
  \<^verbatim>\<open>DeviceOrientationEvent\<close>: where the global is not declared the read throws a
  ReferenceError, after the cover was removed and before \<^verbatim>\<open>init\<close> could be called.  The
  promise's \<^verbatim>\<open>catch(console.error)\<close> also receives what \<^verbatim>\<open>init\<close> throws inside
  \<^verbatim>\<open>then\<close>.
\<close>

fun step :: "host \<Rightarrow> event \<Rightarrow> game \<Rightarrow> error option \<times> game" where
  "step h Click g =
     (if \<not> cover g then (None, g)
      else (let g1 = g\<lparr>cover := False\<rparr>
            in case deviceOrientationEvent h of
                 Undeclared \<Rightarrow>
                   (Some (ReferenceError ''DeviceOrientationEvent is not defined''), g1)
               | WithRequestPermission \<Rightarrow> (None, g1\<lparr>permission_pending := True\<rparr>)
               | WithoutRequestPermission \<Rightarrow> init h g1))"
| "step h (PermissionResponse response) g =
     (if \<not> permission_pending g then (None, g)
      else (let g1 = g\<lparr>permission_pending := False\<rparr>
            in if response = ''granted''
               then (case init h g1 of
                       (None, g2) \<Rightarrow> (None, g2)
                     | (Some e, g2) \<Rightarrow> (None, g2\<lparr>console := console g2 @ [describe e]\<rparr>))
               else (None, g1\<lparr>console := console g1 @
                       [''Device Orientation Event permission rejected by user: '' @ response]\<rparr>)))"
| "step h (PermissionRejected reason) g =
     (if \<not> permission_pending g then (None, g)
      else (None, g\<lparr>permission_pending := False, console := console g @ [reason]\<rparr>))"
| "step h (GeometryLoaded i) g = geometry_completed i None g"
| "step h (GeometryFailed i cause) g = geometry_completed i (Some cause) g"
| "step h (ModelLoaded i) g = model_completed h i None g"
| "step h (ModelFailed i cause) g = model_completed h i (Some cause) g"
| "step h AnimationFrame g =
     (if frames g = 0 then (None, g) else loop h (g\<lparr>frames := frames g - 1\<rparr>))"
| "step h (TouchEnd changedTouches) g = onTouchEnd h changedTouches g"
| "step h (Resize width height) g = resizeViewport (g\<lparr>window := (width, height)\<rparr>)"

fun run :: "host \<Rightarrow> event list \<Rightarrow> game \<Rightarrow> game" where
  "run h [] g = g"
| "run h (e # es) g = run h es (snd (step h e g))"

text \<open>The errors that escaped the listeners during a run, in order.\<close>

fun escaped :: "host \<Rightarrow> event list \<Rightarrow> game \<Rightarrow> error list" where
  "escaped h [] g = []"
| "escaped h (e # es) g =
     (case step h e g of
        (None, g1) \<Rightarrow> escaped h es g1
      | (Some x, g1) \<Rightarrow> x # escaped h es g1)"

text \<open>
  A page whose \<^verbatim>\<open>DeviceOrientationEvent\<close> has no \<^verbatim>\<open>requestPermission\<close>, with nothing
  under the pointer and an engine that never throws.
\<close>

definition plain_host :: host where
  "plain_host =
     \<lparr>deviceOrientationEvent = WithoutRequestPermission, intersect = (\<lambda>p c a. None),
      update_throws = (\<lambda>n. None), render_throws = (\<lambda>n. None)\<rparr>"

subsection \<open>Auxiliary notions for the proofs\<close>

text \<open>
  The batch in which exactly the loads at the positions \<open>S\<close> have completed, all with
  success, none having failed.
\<close>

definition batch_after ::
  "(descriptor \<Rightarrow> string + asset) \<Rightarrow> descriptor list \<Rightarrow> nat set \<Rightarrow> load_batch" where
  "batch_after onEach descs S =
     \<lparr>descriptors = descs, total = length descs,
      slots = map (\<lambda>i. if i \<in> S then Some (projr (onEach (descs ! i))) else None)
                  [0..<length descs],
      completed = card S, failure = None\<rparr>"

text \<open>The description of the node the resolver selects among the nodes \<open>ns\<close>.\<close>

definition selected :: "(asset \<Rightarrow> real option) \<Rightarrow> asset list \<Rightarrow> string \<Rightarrow> real \<Rightarrow> bool" where
  "selected test ns name d \<longleftrightarrow>
     (\<exists>pre n post. ns = pre @ n # post \<and> asset_id n = name \<and> test n = Some d
        \<and> (\<forall>m \<in> set pre. \<forall>d'. test m = Some d' \<longrightarrow> d < d')
        \<and> (\<forall>m \<in> set post. \<forall>d'. test m = Some d' \<longrightarrow> d \<le> d'))"

text \<open>
  The scene of the specification's example: two nodes on the axis the camera looks along,
  \<open>A\<close> at distance 3 and \<open>B\<close> at distance 5, and an engine whose ray through the
  centre of the view meets every node at the distance of its depth.
\<close>

definition node_A :: asset where
  "node_A = \<lparr>asset_id = ''A'', asset_handle = [], asset_position = (0, 0, - 3)\<rparr>"

definition node_B :: asset where
  "node_B = \<lparr>asset_id = ''B'', asset_handle = [], asset_position = (0, 0, - 5)\<rparr>"

definition along_axis :: "pointer \<Rightarrow> camera \<Rightarrow> asset \<Rightarrow> real option" where
  "along_axis p c a = (if p = (Some 0, Some 0) then Some (- snd (snd (asset_position a))) else None)"

definition camera_at_origin :: camera where
  "camera_at_origin = \<lparr>cam_position = Some (0, 0, 0), cam_target = Some (0, 0, - 1), cam_aspect = None\<rparr>"

text \<open>The load that succeeds: every descriptor gives its asset.\<close>

definition load :: "descriptor \<Rightarrow> string + asset" where
  "load d = Inr (instantiate d)"

text \<open>
  What a tick must be given: a scene that holds the two models and the light after
  geometries of the batch, the camera with its position and its target set, the controls
  bound.
\<close>

definition drawable :: "asset list \<Rightarrow> camera \<Rightarrow> bool \<Rightarrow> bool" where
  "drawable graph cam bound \<longleftrightarrow>
     (\<exists>gs. map asset_id graph = gs @ [''Fox'', ''IceTruck'', ''MainSpotLight'']
           \<and> set gs \<subseteq> {''Ground'', ''Skybox'', ''GreenCube'', ''BlueWall''})
     \<and> cam_position cam = Some (3, 5, 10) \<and> cam_target cam = Some (0, 5, 0) \<and> bound"

text \<open>
  The geometry batch at any moment after its submission: the loads at some positions
  \<open>T\<close> have succeeded, the batch may have failed, and the manager retains the loads at
  \<open>T\<close>.
\<close>

definition geometry_ok :: "game \<Rightarrow> bool" where
  "geometry_ok g \<longleftrightarrow>
     (\<exists>T fl. T \<subseteq> {..<length geometry_descriptors}
        \<and> geometry_batch g = Some ((batch_after load geometry_descriptors T)\<lparr>failure := fl\<rparr>)
        \<and> geometries g = retained (batch_after load geometry_descriptors T))"

text \<open>
  The phases of a game.  \<open>stopped\<close>: nothing is initialised.  \<open>awaiting\<close>: the
  renderer exists, the light is retained, the geometry batch is under way, nothing is
  composed and the loop has not started; \<open>loading\<close> when no model has failed and some
  model is still to come, \<open>failed_with e\<close> when the model batch has failed with \<open>e\<close>.
  \<open>running\<close>: the scene is composed, one frame is requested, and every tick so far was
  given a drawable scene.
\<close>

definition stopped :: "game \<Rightarrow> bool" where
  "stopped g \<longleftrightarrow>
     renderer g = None \<and> model_batch g = None \<and> geometry_batch g = None
     \<and> geometries g = [] \<and> models g = []
     \<and> lights g = [] \<and> scene g = [] \<and> frames g = 0 \<and> ticks g = []
     \<and> cam_position (camera g) = None \<and> \<not> controls g
     \<and> (permission_pending g \<longrightarrow> \<not> cover g)"

definition awaiting :: "game \<Rightarrow> bool" where
  "awaiting g \<longleftrightarrow>
     renderer g \<noteq> None \<and> \<not> cover g \<and> \<not> permission_pending g
     \<and> geometry_ok g \<and> lights g = [created_light]
     \<and> scene g = [] \<and> frames g = 0 \<and> ticks g = []
     \<and> cam_position (camera g) = None \<and> \<not> controls g"

definition loading :: "game \<Rightarrow> bool" where
  "loading g \<longleftrightarrow>
     awaiting g
     \<and> (\<exists>S. S \<subseteq> {..<length model_descriptors} \<and> S \<noteq> {..<length model_descriptors}
            \<and> model_batch g = Some (batch_after load model_descriptors S))"

definition failed_with :: "error \<Rightarrow> game \<Rightarrow> bool" where
  "failed_with e g \<longleftrightarrow>
     awaiting g \<and> (\<exists>b. model_batch g = Some b \<and> failure b = Some e)"

definition running :: "game \<Rightarrow> bool" where
  "running g \<longleftrightarrow>
     renderer g \<noteq> None \<and> \<not> cover g \<and> \<not> permission_pending g
     \<and> geometry_batch g \<noteq> None \<and> lights g = [created_light]
     \<and> drawable (scene g) (camera g) (controls g)
     \<and> frames g = 1 \<and> ticks g \<noteq> []
     \<and> (\<forall>t \<in> set (ticks g). drawable (t_scene t) (t_camera t) (t_controls t))
     \<and> model_batch g = Some (batch_after load model_descriptors {..<length model_descriptors})"

text \<open>The errors that are load failures, and the listeners' errors that are none.\<close>

definition is_load_error :: "error \<Rightarrow> bool" where
  "is_load_error e = (case e of AssetLoadError n c \<Rightarrow> True | _ \<Rightarrow> False)"

definition quiet :: "error option \<Rightarrow> bool" where
  "quiet err = (case err of None \<Rightarrow> True | Some e \<Rightarrow> \<not> is_load_error e)"


text \<open>In debug mode the statistics widget exists.\<close>

definition stats_ok :: "game \<Rightarrow> bool" where
  "stats_ok g \<longleftrightarrow> (debugMode g \<longrightarrow> stats g \<noteq> None)"

text \<open>The invariant of every run: the game is in one of the phases.\<close>

definition reached :: "game \<Rightarrow> bool" where
  "reached g \<longleftrightarrow> stopped g \<or> loading g \<or> running g \<or> (\<exists>x. failed_with x g)"

text \<open>An engine whose controls update throws at the second tick.\<close>

definition faulty_host :: host where
  "faulty_host = plain_host\<lparr>update_throws := (\<lambda>n. if n = 1 then Some ''boom'' else None)\<rparr>"

text \<open>A page whose \<^verbatim>\<open>DeviceOrientationEvent\<close> has \<^verbatim>\<open>requestPermission\<close>.\<close>

definition ios_host :: host where
  "ios_host = plain_host\<lparr>deviceOrientationEvent := WithRequestPermission\<rparr>"

text \<open>A page on which the global \<^verbatim>\<open>DeviceOrientationEvent\<close> is not declared.\<close>

definition bare_host :: host where
  "bare_host = plain_host\<lparr>deviceOrientationEvent := Undeclared\<rparr>"


section \<open>The load coordinator settles once\<close>

lemma map_upt_None: "map (\<lambda>i. None) [0..<n] = replicate n None"
  by (rule nth_equalityI) simp_all

lemma submit_batch_after:
  "submit descs = (batch_after onEach descs {}, if descs = [] then Some (Resolved []) else None)"
  by (simp add: submit_def batch_after_def map_upt_None)

lemma slots_update:
  "i < n \<Longrightarrow> (map (\<lambda>j. if j \<in> S then Some (f j) else None) [0..<n])[i := Some (f i)]
     = map (\<lambda>j. if j \<in> insert i S then Some (f j) else None) [0..<n]"
  by (rule nth_equalityI) (auto simp: nth_list_update)

lemma slots_full:
  "map the (map (\<lambda>j. if j \<in> {..<length descs} then Some (projr (onEach (descs ! j))) else None)
                [0..<length descs])
     = map (\<lambda>d. projr (onEach d)) descs"
  by (rule nth_equalityI) auto

lemma card_full: "S \<subseteq> {..<n} \<Longrightarrow> card S = n \<longleftrightarrow> S = {..<(n::nat)}"
  by (metis card_lessThan card_subset_eq finite_lessThan)

lemma complete_loaded:
  assumes "S \<subseteq> {..<length descs}" "i < length descs" "i \<notin> S" "onEach (descs ! i) = Inr a"
  shows "complete_load i (Loaded a) (batch_after onEach descs S)
         = (batch_after onEach descs (insert i S),
            if insert i S = {..<length descs}
            then Some (Resolved (map (\<lambda>d. projr (onEach d)) descs)) else None)"
proof -
  let ?B = "batch_after onEach descs S" and ?B' = "batch_after onEach descs (insert i S)"
  have fin: "finite S" using assms(1) finite_subset by blast
  have a: "a = projr (onEach (descs ! i))" using assms(4) by simp
  have sub: "insert i S \<subseteq> {..<length descs}" using assms by auto
  have c: "card (insert i S) = card S + 1" using fin assms(3) by simp
  have free: "slots ?B ! i = None" "failure ?B = None" "total ?B = length descs"
    using assms(2,3) by (simp_all add: batch_after_def)
  have upd: "?B\<lparr>slots := (slots ?B)[i := Some a], completed := completed ?B + 1\<rparr> = ?B'"
    unfolding a batch_after_def
    using slots_update[OF assms(2), of S "\<lambda>j. projr (onEach (descs ! j))"] c by simp
  have full: "(completed ?B' = total ?B') = (insert i S = {..<length descs})"
    using card_full[OF sub] by (simp add: batch_after_def)
  have res: "insert i S = {..<length descs}
             \<Longrightarrow> map the (slots ?B') = map (\<lambda>d. projr (onEach d)) descs"
    using slots_full[of descs onEach] by (simp add: batch_after_def)
  show ?thesis
    using assms(2) free upd full res by (simp add: complete_load_def Let_def)
qed

lemma complete_failed:
  assumes "i < length descs" "i \<notin> S"
  shows "complete_load i (Failed cause) (batch_after onEach descs S)
         = ((batch_after onEach descs S)
              \<lparr>failure := Some (AssetLoadError (d_identifier (descs ! i)) cause)\<rparr>,
            Some (Rejected (AssetLoadError (d_identifier (descs ! i)) cause)))"
  using assms by (simp add: complete_load_def batch_after_def Let_def)

lemma complete_after_failure: "failure b \<noteq> None \<Longrightarrow> complete_load i out b = (b, None)"
  by (simp add: complete_load_def)


lemma rest_empty_iff_full:
  assumes "set rest \<inter> insert i S = {}" "set rest \<union> insert i S = {..<n::nat}"
  shows "(insert i S = {..<n}) = (rest = [])"
proof
  assume full: "insert i S = {..<n}"
  have "set rest \<subseteq> set rest \<union> insert i S" by (rule Un_upper1)
  then have "set rest \<subseteq> insert i S" unfolding assms(2) full[symmetric] .
  then have "set rest \<subseteq> set rest \<inter> insert i S" by (rule Int_greatest[OF subset_refl])
  then have "set rest = {}" unfolding assms(1) by simp
  then show "rest = []" by simp
next
  assume "rest = []"
  then have "insert i S = set rest \<union> insert i S" by simp
  also have "\<dots> = {..<n}" by (rule assms(2))
  finally show "insert i S = {..<n}" .
qed

lemma deliver_all_loaded:
  assumes "distinct order" "set order \<inter> S = {}" "set order \<union> S = {..<length descs}"
      and "\<forall>i < length descs. \<exists>a. onEach (descs ! i) = Inr a"
  shows "deliver onEach order (batch_after onEach descs S)
         = (if order = [] then [] else [Resolved (map (\<lambda>d. projr (onEach d)) descs)])"
  using assms(1-3)
proof (induction order arbitrary: S)
  case Nil
  show ?case by simp
next
  case (Cons i rest)
  have i: "i < length descs" "i \<notin> S" and S: "S \<subseteq> {..<length descs}"
    using Cons.prems(2,3) by auto
  obtain a where a: "onEach (descs ! i) = Inr a" using assms(4) i(1) by blast
  have tot: "total (batch_after onEach descs S) = length descs"
            "descriptors (batch_after onEach descs S) = descs"
    by (simp_all add: batch_after_def)
  have d: "distinct rest" "i \<notin> set rest" using Cons.prems(1) by simp_all
  have disj: "set rest \<inter> insert i S = {}" using Cons.prems(2) d(2) by simp
  have "set rest \<union> insert i S = set (i # rest) \<union> S" by simp
  also have "\<dots> = {..<length descs}" by (rule Cons.prems(3))
  finally have un: "set rest \<union> insert i S = {..<length descs}" .
  have IH: "deliver onEach rest (batch_after onEach descs (insert i S))
            = (if rest = [] then [] else [Resolved (map (\<lambda>d. projr (onEach d)) descs)])"
    using d(1) disj un by (rule Cons.IH)
  have step: "deliver onEach (i # rest) (batch_after onEach descs S)
     = fired (if rest = [] then Some (Resolved (map (\<lambda>d. projr (onEach d)) descs)) else None)
       @ deliver onEach rest (batch_after onEach descs (insert i S))"
    using i(1)
    by (simp add: tot a outcome_of_def
          complete_loaded[where onEach=onEach and descs=descs, OF S i a]
          rest_empty_iff_full[OF disj un])
  show ?case
    unfolding step IH by (simp add: fired_def)
qed

text \<open>
  C1.  For every list of descriptors handed to the load coordinator, and every order in
  which the individual loads complete (every arrangement of the positions of the list), if
  all the loads succeed then the coordinator signals exactly one settlement, the success
  one, and its results are those of the descriptors in the order of the descriptors.  With
  no descriptor at all the settlement is signalled at submission.
\<close>

theorem loads_resolve_once_in_input_order:
  assumes "distinct order" and "set order = {..<length descs}"
      and "\<forall>d \<in> set descs. \<exists>a. onEach d = Inr a"
  shows "awaitAll descs onEach order = [Resolved (map (\<lambda>d. projr (onEach d)) descs)]"
proof -
  have ok: "\<forall>i < length descs. \<exists>a. onEach (descs ! i) = Inr a"
    using assms(3) by simp
  have un: "set order \<union> {} = {..<length descs}" using assms(2) by simp
  have d: "deliver onEach order (batch_after onEach descs {})
           = (if order = [] then [] else [Resolved (map (\<lambda>d. projr (onEach d)) descs)])"
    using assms(1) _ un ok by (rule deliver_all_loaded) simp
  have e: "(order = []) = (descs = [])"
  proof
    assume "order = []"
    then have "{..<length descs} = {}" using assms(2) by simp
    then have "length descs = 0" by (metis card_lessThan card.empty)
    then show "descs = []" by simp
  next
    assume "descs = []"
    then have "set order = {}" using assms(2) by simp
    then show "order = []" by simp
  qed
  show ?thesis
    by (simp add: awaitAll_def submit_batch_after[of descs onEach] d e fired_def)
qed

theorem loads_resolve_once_in_input_order_witness:
  "distinct [1, 0 :: nat] \<and> set [1, 0] = {..<length model_descriptors}
   \<and> awaitAll model_descriptors (\<lambda>d. Inr (instantiate d)) [1, 0]
       = [Resolved (map instantiate model_descriptors)]"
proof -
  have 1: "distinct [1, 0 :: nat]" by simp
  have 2: "set [1, 0] = {..<length model_descriptors}"
    by (auto simp: model_descriptors_def)
  have 3: "\<forall>d \<in> set model_descriptors. \<exists>a. (Inr (instantiate d) :: string + asset) = Inr a"
    by simp
  show ?thesis
    using 1 2 loads_resolve_once_in_input_order[OF 1 2 3] by simp
qed

section \<open>The composer refuses duplicates\<close>

lemma getByIdentifier_None: "(getByIdentifier n g = None) = (n \<notin> asset_id ` set g)"
  by (auto simp: getByIdentifier_def find_None_iff)

lemma addThings_distinct:
  "distinct (map asset_id (g @ ts)) \<Longrightarrow> addThings ts g = Inr (g @ ts)"
proof (induction ts arbitrary: g)
  case Nil
  show ?case by simp
next
  case (Cons t ts)
  have fresh: "asset_id t \<notin> asset_id ` set g" using Cons.prems by auto
  have "distinct (map asset_id ((g @ [t]) @ ts))" using Cons.prems by simp
  then have "addThings ts (g @ [t]) = Inr ((g @ [t]) @ ts)" by (rule Cons.IH)
  then show ?case using fresh by (simp add: getByIdentifier_None)
qed

lemma count_list_member: "x \<in> set xs \<Longrightarrow> 0 < count_list xs x"
  by (induction xs) auto

lemma addThings_duplicate:
  "distinct (map asset_id g) \<Longrightarrow> \<not> distinct (map asset_id (g @ ts)) \<Longrightarrow>
   \<exists>n. addThings ts g = Inl (DuplicateIdentifierError n)
       \<and> 1 < count_list (map asset_id (g @ ts)) n"
proof (induction ts arbitrary: g)
  case Nil
  then show ?case by simp
next
  case (Cons t ts)
  show ?case
  proof (cases "asset_id t \<in> asset_id ` set g")
    case True
    then have "0 < count_list (map asset_id g) (asset_id t)"
      by (intro count_list_member) simp
    then have "1 < count_list (map asset_id (g @ t # ts)) (asset_id t)" by simp
    moreover have "addThings (t # ts) g = Inl (DuplicateIdentifierError (asset_id t))"
      using True by (simp add: getByIdentifier_None)
    ultimately show ?thesis by blast
  next
    case False
    have d: "distinct (map asset_id (g @ [t]))" using Cons.prems(1) False by simp
    have nd: "\<not> distinct (map asset_id ((g @ [t]) @ ts))" using Cons.prems(2) by simp
    obtain n where n: "addThings ts (g @ [t]) = Inl (DuplicateIdentifierError n)"
        "1 < count_list (map asset_id ((g @ [t]) @ ts)) n"
      using Cons.IH[OF d nd] by blast
    have "addThings (t # ts) g = Inl (DuplicateIdentifierError n)"
      using False n(1) by (simp add: getByIdentifier_None)
    moreover have "1 < count_list (map asset_id (g @ t # ts)) n" using n(2) by simp
    ultimately show ?thesis by blast
  qed
qed

text \<open>
  C4.  Whenever an identifier occurs twice among the geometries, the models and the lights
  handed to the composition, be it inside one collection or in two of them, the
  composition fails with \<open>DuplicateIdentifierError\<close> for an identifier that does occur
  at least twice, and gives no graph.
\<close>

theorem compose_rejects_duplicates:
  assumes "\<not> distinct (map asset_id (geoms @ mods @ lits))"
  shows "\<exists>n. compose geoms mods lits = Inl (DuplicateIdentifierError n)
            \<and> 1 < count_list (map asset_id (geoms @ mods @ lits)) n"
proof (cases "distinct (map asset_id geoms)")
  case False
  then obtain n where n: "addThings geoms [] = Inl (DuplicateIdentifierError n)"
      "1 < count_list (map asset_id geoms) n"
    using addThings_duplicate[of "[]" geoms] by auto
  have "compose geoms mods lits = Inl (DuplicateIdentifierError n)"
    by (simp add: compose_def n(1))
  moreover have "1 < count_list (map asset_id (geoms @ mods @ lits)) n" using n(2) by simp
  ultimately show ?thesis by blast
next
  case dg: True
  have g1: "addThings geoms [] = Inr geoms" using addThings_distinct[of "[]" geoms] dg by simp
  show ?thesis
  proof (cases "distinct (map asset_id (geoms @ mods))")
    case False
    then obtain n where n: "addThings mods geoms = Inl (DuplicateIdentifierError n)"
        "1 < count_list (map asset_id (geoms @ mods)) n"
      using addThings_duplicate[OF dg] by blast
    have "compose geoms mods lits = Inl (DuplicateIdentifierError n)"
      by (simp add: compose_def g1 n(1))
    moreover have "1 < count_list (map asset_id (geoms @ mods @ lits)) n" using n(2) by simp
    ultimately show ?thesis by blast
  next
    case dm: True
    have g2: "addThings mods geoms = Inr (geoms @ mods)" using addThings_distinct[OF dm] .
    have nd: "\<not> distinct (map asset_id ((geoms @ mods) @ lits))" using assms by simp
    obtain n where n: "addThings lits (geoms @ mods) = Inl (DuplicateIdentifierError n)"
        "1 < count_list (map asset_id ((geoms @ mods) @ lits)) n"
      using addThings_duplicate[OF dm nd] by blast
    have "compose geoms mods lits = Inl (DuplicateIdentifierError n)"
      by (simp add: compose_def g1 g2 n(1))
    moreover have "1 < count_list (map asset_id (geoms @ mods @ lits)) n" using n(2) by simp
    ultimately show ?thesis by blast
  qed
qed

theorem compose_rejects_duplicates_witness:
  "\<not> distinct (map asset_id (created_geometries @ map instantiate model_descriptors @ [created_light, created_light]))
   \<and> compose created_geometries (map instantiate model_descriptors) [created_light, created_light]
       = Inl (DuplicateIdentifierError ''MainSpotLight'')"
proof -
  have nd: "\<not> distinct (map asset_id (created_geometries @ map instantiate model_descriptors @ [created_light, created_light]))"
    by simp
  have c: "compose created_geometries (map instantiate model_descriptors) [created_light, created_light]
       = Inl (DuplicateIdentifierError ''MainSpotLight'')"
    by (simp add: compose_def created_geometries_def model_descriptors_def instantiate_def
          created_light_def getByIdentifier_def)
  show ?thesis
    using nd c compose_rejects_duplicates[OF nd] by simp
qed

lemma compose_distinct:
  assumes "distinct (map asset_id (geoms @ mods @ lits))"
  shows "compose geoms mods lits = Inr (geoms @ mods @ lits)"
proof -
  have 1: "distinct (map asset_id ([] @ geoms))" using assms by simp
  have 2: "distinct (map asset_id (geoms @ mods))" using assms by auto
  have 3: "distinct (map asset_id ((geoms @ mods) @ lits))" using assms by simp
  show ?thesis
    using addThings_distinct[OF 1] addThings_distinct[OF 2] addThings_distinct[OF 3]
    by (simp add: compose_def)
qed

section \<open>The resolver picks the nearest hit\<close>

lemma nearest_Some_stays: "nearest test ns (Some b) \<noteq> None"
  by (induction ns arbitrary: b) (auto split: option.splits)

lemma nearest_None_iff: "(nearest test ns None = None) = (\<forall>n \<in> set ns. test n = None)"
proof (induction ns)
  case Nil
  show ?case by simp
next
  case (Cons n ns)
  show ?case using Cons.IH nearest_Some_stays[of test ns] by (cases "test n") auto
qed

lemma selected_Cons_miss: "test n = None \<Longrightarrow> selected test ns name d \<Longrightarrow> selected test (n # ns) name d"
  unfolding selected_def
  apply (elim exE conjE)
  subgoal for pre m post
    by (rule exI[of _ "n # pre"], rule exI[of _ m], rule exI[of _ post]) simp
  done

lemma selected_Cons_farther:
  "test n = Some dn \<Longrightarrow> d < dn \<Longrightarrow> selected test ns name d \<Longrightarrow> selected test (n # ns) name d"
  unfolding selected_def
  apply (elim exE conjE)
  subgoal for pre m post
    by (rule exI[of _ "n # pre"], rule exI[of _ m], rule exI[of _ post]) simp
  done

lemma selected_head:
  "test n = Some d \<Longrightarrow> \<forall>m \<in> set ns. \<forall>d'. test m = Some d' \<longrightarrow> d \<le> d'
   \<Longrightarrow> selected test (n # ns) (asset_id n) d"
  unfolding selected_def
  by (rule exI[of _ "[]"], rule exI[of _ n], rule exI[of _ ns]) simp

lemma nearest_with_best:
  "nearest test ns (Some (b, bd)) = Some (name, d) \<Longrightarrow>
     (name = b \<and> d = bd \<and> (\<forall>m \<in> set ns. \<forall>d'. test m = Some d' \<longrightarrow> bd \<le> d'))
     \<or> (d < bd \<and> selected test ns name d)"
proof (induction ns arbitrary: b bd)
  case Nil
  then show ?case by simp
next
  case (Cons n ns)
  show ?case
  proof (cases "test n")
    case None
    then have "nearest test ns (Some (b, bd)) = Some (name, d)" using Cons.prems by simp
    from Cons.IH[OF this] show ?thesis using None selected_Cons_miss[where test=test and n=n, OF None] by auto
  next
    case (Some dn)
    show ?thesis
    proof (cases "dn < bd")
      case True
      then have "nearest test ns (Some (asset_id n, dn)) = Some (name, d)"
        using Cons.prems Some by simp
      from Cons.IH[OF this] show ?thesis
      proof
        assume a: "name = asset_id n \<and> d = dn \<and> (\<forall>m\<in>set ns. \<forall>d'. test m = Some d' \<longrightarrow> dn \<le> d')"
        then have "selected test (n # ns) name d" using selected_head[of test n dn ns] Some by simp
        then show ?thesis using a True by simp
      next
        assume a: "d < dn \<and> selected test ns name d"
        then have "selected test (n # ns) name d" using selected_Cons_farther[where test=test and n=n, OF Some] by simp
        then show ?thesis using a True by simp
      qed
    next
      case False
      then have "nearest test ns (Some (b, bd)) = Some (name, d)"
        using Cons.prems Some by simp
      from Cons.IH[OF this] show ?thesis
      proof
        assume a: "name = b \<and> d = bd \<and> (\<forall>m\<in>set ns. \<forall>d'. test m = Some d' \<longrightarrow> bd \<le> d')"
        then show ?thesis using False Some by auto
      next
        assume a: "d < bd \<and> selected test ns name d"
        then have "d < dn" using False by simp
        then have "selected test (n # ns) name d" using selected_Cons_farther[where test=test and n=n, OF Some] a by simp
        then show ?thesis using a by simp
      qed
    qed
  qed
qed

lemma nearest_selected:
  "nearest test ns None = Some (name, d) \<Longrightarrow> selected test ns name d"
proof (induction ns)
  case Nil
  then show ?case by simp
next
  case (Cons n ns)
  show ?case
  proof (cases "test n")
    case None
    then show ?thesis using Cons selected_Cons_miss[where test=test and n=n, OF None] by simp
  next
    case (Some dn)
    then have "nearest test ns (Some (asset_id n, dn)) = Some (name, d)" using Cons.prems by simp
    from nearest_with_best[OF this] show ?thesis
      using selected_head[of test n dn ns] selected_Cons_farther[where test=test and n=n, OF Some] Some by auto
  qed
qed

text \<open>
  C5.  For every pointer, camera and scene graph, \<^verbatim>\<open>getTouchedElementIdentifier\<close> answers
  \<open>none\<close> when the ray hits no node, so on the empty graph always, and otherwise answers
  the identifier of a node that is hit, at a distance that no hit node undercuts, every hit
  node before it in the order of the graph being strictly farther.  The same holds of the
  resolver \<open>resolve\<close> behind it, whose answer \<open>None\<close> stands for \<open>none\<close>.
\<close>

theorem resolver_selects_nearest_first_hit:
  "resolve hit p cam [] = None
   \<and> getTouchedElementIdentifier hit [] p cam = ''none''
   \<and> ((resolve hit p cam graph = None) = (\<forall>n \<in> set graph. hit p cam n = None))
   \<and> (resolve hit p cam graph = Some name \<longrightarrow>
        (\<exists>pre n post d. graph = pre @ n # post \<and> asset_id n = name
           \<and> hit p cam n = Some d
           \<and> (\<forall>m \<in> set pre. \<forall>d'. hit p cam m = Some d' \<longrightarrow> d < d')
           \<and> (\<forall>m \<in> set post. \<forall>d'. hit p cam m = Some d' \<longrightarrow> d \<le> d')))
   \<and> ((\<forall>n \<in> set graph. hit p cam n = None) \<longrightarrow>
        getTouchedElementIdentifier hit graph p cam = ''none'')
   \<and> ((\<exists>n \<in> set graph. hit p cam n \<noteq> None) \<longrightarrow>
        (\<exists>pre n post d. graph = pre @ n # post
           \<and> getTouchedElementIdentifier hit graph p cam = asset_id n
           \<and> hit p cam n = Some d
           \<and> (\<forall>m \<in> set pre. \<forall>d'. hit p cam m = Some d' \<longrightarrow> d < d')
           \<and> (\<forall>m \<in> set post. \<forall>d'. hit p cam m = Some d' \<longrightarrow> d \<le> d')))"
proof -
  have none: "(resolve hit p cam graph = None) = (\<forall>n \<in> set graph. hit p cam n = None)"
    by (simp add: resolve_def nearest_None_iff)
  have some: "\<exists>pre n post d. graph = pre @ n # post \<and> asset_id n = name'
           \<and> hit p cam n = Some d
           \<and> (\<forall>m \<in> set pre. \<forall>d'. hit p cam m = Some d' \<longrightarrow> d < d')
           \<and> (\<forall>m \<in> set post. \<forall>d'. hit p cam m = Some d' \<longrightarrow> d \<le> d')"
    if res: "resolve hit p cam graph = Some name'" for name'
  proof -
    obtain d where "nearest (hit p cam) graph None = Some (name', d)"
      using res by (auto simp: resolve_def)
    then have "selected (hit p cam) graph name' d" by (rule nearest_selected)
    then show ?thesis unfolding selected_def by blast
  qed
  have miss: "getTouchedElementIdentifier hit graph p cam = ''none''"
    if "\<forall>n \<in> set graph. hit p cam n = None"
    using that none by (simp add: getTouchedElementIdentifier_def)
  have found: "\<exists>pre n post d. graph = pre @ n # post
           \<and> getTouchedElementIdentifier hit graph p cam = asset_id n
           \<and> hit p cam n = Some d
           \<and> (\<forall>m \<in> set pre. \<forall>d'. hit p cam m = Some d' \<longrightarrow> d < d')
           \<and> (\<forall>m \<in> set post. \<forall>d'. hit p cam m = Some d' \<longrightarrow> d \<le> d')"
    if ex: "\<exists>n \<in> set graph. hit p cam n \<noteq> None"
  proof -
    have "resolve hit p cam graph \<noteq> None" using ex by (simp add: none)
    then obtain name' where r: "resolve hit p cam graph = Some name'" by auto
    then have g: "getTouchedElementIdentifier hit graph p cam = name'"
      by (simp add: getTouchedElementIdentifier_def)
    show ?thesis using some[OF r] unfolding g by blast
  qed
  have e1: "resolve hit p cam [] = None" by (simp add: resolve_def)
  have e2: "getTouchedElementIdentifier hit [] p cam = ''none''"
    by (simp add: getTouchedElementIdentifier_def resolve_def)
  show ?thesis using e1 e2 none some miss found by blast
qed

theorem resolver_selects_nearest_first_hit_witness:
  "resolve along_axis (Some 0, Some 0) camera_at_origin [node_B, node_A] = Some ''A''
   \<and> getTouchedElementIdentifier along_axis [node_B, node_A] (Some 0, Some 0) camera_at_origin
       = ''A''
   \<and> (\<exists>pre n post d. [node_B, node_A] = pre @ n # post \<and> asset_id n = ''A''
           \<and> along_axis (Some 0, Some 0) camera_at_origin n = Some d
           \<and> (\<forall>m \<in> set pre. \<forall>d'. along_axis (Some 0, Some 0) camera_at_origin m = Some d' \<longrightarrow> d < d')
           \<and> (\<forall>m \<in> set post. \<forall>d'. along_axis (Some 0, Some 0) camera_at_origin m = Some d' \<longrightarrow> d \<le> d'))"
proof -
  have r: "resolve along_axis (Some 0, Some 0) camera_at_origin [node_B, node_A] = Some ''A''"
    by (simp add: resolve_def along_axis_def node_A_def node_B_def)
  have t: "getTouchedElementIdentifier along_axis [node_B, node_A] (Some 0, Some 0)
             camera_at_origin = ''A''"
    by (simp add: getTouchedElementIdentifier_def r)
  show ?thesis
    using r t resolver_selects_nearest_first_hit
            [of along_axis "(Some 0, Some 0)" camera_at_origin "[node_B, node_A]" "''A''"]
    by simp
qed

section \<open>The pointer callback\<close>

lemmas manager_defs = setPosition_def lookAtSomething_def initDeviceOrientation_def
  createSpotLight_def loadGeometries_def loadModels_def

lemma debuglogs_ended: "debuglogs (snd (ended e g)) = debuglogs g"
  by (simp add: ended_def)

lemma debuglogs_stats_begin: "stats_begin g = Inr g' \<Longrightarrow> debuglogs g' = debuglogs g"
  by (auto simp: stats_begin_def split: if_splits option.splits)

lemma debuglogs_stats_end: "stats_end g = Inr g' \<Longrightarrow> debuglogs g' = debuglogs g"
  by (auto simp: stats_end_def split: if_splits option.splits)

lemma debuglogs_loop: "debuglogs (snd (loop h g)) = debuglogs g"
  by (auto simp: loop_def Let_def debuglogs_ended
           dest!: debuglogs_stats_begin debuglogs_stats_end
           split: sum.splits option.splits)

lemma debuglogs_prepare: "debuglogs (snd (prepare g)) = debuglogs g"
  by (simp add: prepare_def manager_defs Let_def split: sum.splits option.splits)

lemma debuglogs_continuation: "debuglogs (snd (continuation h g)) = debuglogs g"
  using debuglogs_prepare[of g] debuglogs_loop[of h "snd (prepare g)"]
  by (auto simp: continuation_def split: prod.splits option.splits)

lemma debuglogs_on_settled: "debuglogs (snd (on_settled h s g)) = debuglogs g"
  by (simp add: on_settled_def debuglogs_continuation split: option.splits settlement.splits)

lemma debuglogs_init: "debuglogs (snd (init h g)) = debuglogs g"
  by (simp add: init_def manager_defs Let_def debuglogs_on_settled split: prod.splits)

lemma debuglogs_model_completed: "debuglogs (snd (model_completed h i c g)) = debuglogs g"
  by (simp add: model_completed_def Let_def debuglogs_on_settled split: option.splits prod.splits)

lemma debuglogs_geometry_completed: "debuglogs (snd (geometry_completed i c g)) = debuglogs g"
  by (simp add: geometry_completed_def Let_def split: option.splits prod.splits)

lemma debuglogs_resizeViewport: "debuglogs (snd (resizeViewport g)) = debuglogs g"
  by (simp add: resizeViewport_def split: option.splits prod.splits)

lemma debuglogs_onTouchEnd: "(debuglogs (snd (onTouchEnd h ts g)) = None) = (debuglogs g = None)"
  by (simp add: onTouchEnd_def Let_def split: list.splits option.splits)

lemma debuglogs_step: "(debuglogs (snd (step h e g)) = None) = (debuglogs g = None)"
proof (cases e)
  case Click
  then show ?thesis by (simp add: debuglogs_init Let_def split: device_orientation.splits)
next
  case (PermissionResponse r)
  then show ?thesis
    using debuglogs_init[of h "g\<lparr>permission_pending := False\<rparr>"]
    by (auto simp: Let_def split: prod.splits option.splits)
next
  case (PermissionRejected r)
  then show ?thesis by simp
next
  case (GeometryLoaded i)
  then show ?thesis by (simp add: debuglogs_geometry_completed)
next
  case (GeometryFailed i c)
  then show ?thesis by (simp add: debuglogs_geometry_completed)
next
  case (ModelLoaded i)
  then show ?thesis by (simp add: debuglogs_model_completed)
next
  case (ModelFailed i c)
  then show ?thesis by (simp add: debuglogs_model_completed)
next
  case AnimationFrame
  then show ?thesis by (simp add: debuglogs_loop)
next
  case (TouchEnd ts)
  then show ?thesis by (simp add: debuglogs_onTouchEnd)
next
  case (Resize w hh)
  then show ?thesis by (simp add: debuglogs_resizeViewport)
qed

lemma debuglogs_run: "(debuglogs (run h es g) = None) = (debuglogs g = None)"
  by (induction es arbitrary: g) (simp_all add: debuglogs_step)

text \<open>
  C9.  In a game constructed with \<open>isDebugMode = false\<close>, after any sequence of events,
  the handler of a touchend event fails: with a touch, on the dereference of
  \<^verbatim>\<open>this._debuglogs\<close>, which the constructor creates in debug mode only; without one,
  already on \<^verbatim>\<open>changedTouches[0]\<close>.  In a game constructed in debug mode the handler
  of a touchend event that carries a touch succeeds.
\<close>

theorem touch_fails_outside_debug_mode:
  "fst (onTouchEnd h (touch # others) (run h es (constructor False hp win)))
     = Some (TypeError ''this._debuglogs is undefined'')
   \<and> fst (onTouchEnd h [] (run h es (constructor False hp win)))
     = Some (TypeError ''event.changedTouches[0] is undefined'')
   \<and> fst (onTouchEnd h (touch # others) (run h es (constructor True hp win))) = None"
proof -
  have off: "debuglogs (run h es (constructor False hp win)) = None"
    by (simp add: debuglogs_run constructor_def)
  have on: "debuglogs (run h es (constructor True hp win)) \<noteq> None"
    by (simp add: debuglogs_run constructor_def)
  show ?thesis
    using off on by (auto simp: onTouchEnd_def Let_def split: option.splits)
qed

lemma normalize_in_range:
  assumes "0 < w" "0 < h" "0 \<le> x" "x \<le> w" "0 \<le> y" "y \<le> h"
  shows "normalize (x, y) (w, h) = (Some (2 * x / w - 1), Some (1 - 2 * y / h))"
    and "- 1 \<le> 2 * x / w - 1" and "2 * x / w - 1 \<le> 1"
    and "- 1 \<le> 1 - 2 * y / h" and "1 - 2 * y / h \<le> 1"
proof -
  show "normalize (x, y) (w, h) = (Some (2 * x / w - 1), Some (1 - 2 * y / h))"
    using assms(1,2) by (simp add: normalize_def js_div_def)
  have xw: "0 \<le> x / w" "x / w \<le> 1" using assms by simp_all
  have yh: "0 \<le> y / h" "y / h \<le> 1" using assms by simp_all
  show "- 1 \<le> 2 * x / w - 1" using xw by simp
  show "2 * x / w - 1 \<le> 1" using xw by simp
  show "- 1 \<le> 1 - 2 * y / h" using yh by simp
  show "1 - 2 * y / h \<le> 1" using yh by simp
qed

text \<open>
  C8.  For a pointer-up event whose first touch has \<open>clientX\<close> between 0 and the width of
  the window and \<open>clientY\<close> between 0 and its height (the window having a positive width
  and height), the handler stores the pointer \<open>(2 x / w - 1, 1 - 2 y / h)\<close>: both
  components lie between \<open>-1\<close> and \<open>1\<close>, the left edge gives \<open>-1\<close> and the right edge
  \<open>1\<close>, the top edge gives \<open>1\<close> and the bottom edge \<open>-1\<close>; and the identifier it logs
  is the resolver's answer for that normalized pointer.
\<close>

theorem touch_is_normalized:
  assumes "window g = (w, h)" and "0 < w" and "0 < h"
      and "0 \<le> x" and "x \<le> w" and "0 \<le> y" and "y \<le> h"
  shows "\<exists>mx my.
           mx = 2 * x / w - 1 \<and> my = 1 - 2 * y / h
         \<and> - 1 \<le> mx \<and> mx \<le> 1 \<and> - 1 \<le> my \<and> my \<le> 1
         \<and> (x = 0 \<longrightarrow> mx = - 1) \<and> (x = w \<longrightarrow> mx = 1)
         \<and> (y = 0 \<longrightarrow> my = 1) \<and> (y = h \<longrightarrow> my = - 1)
         \<and> mouse (snd (onTouchEnd hst ((x, y) # others) g)) = (Some mx, Some my)
         \<and> (\<forall>logs. debuglogs g = Some logs \<longrightarrow>
               onTouchEnd hst ((x, y) # others) g =
                 (None, g\<lparr>mouse := (Some mx, Some my),
                          debuglogs := Some (logs @ [''RayCast -> '' @
                            getTouchedElementIdentifier (intersect hst) (scene g)
                              (Some mx, Some my) (camera g)]),
                          console := console g @
                            [getTouchedElementIdentifier (intersect hst) (scene g)
                               (Some mx, Some my) (camera g)]\<rparr>))"
proof -
  note n = normalize_in_range[OF assms(2-7)]
  have ends: "x = 0 \<longrightarrow> 2 * x / w - 1 = - 1" "x = w \<longrightarrow> 2 * x / w - 1 = 1"
             "y = 0 \<longrightarrow> 1 - 2 * y / h = 1" "y = h \<longrightarrow> 1 - 2 * y / h = - 1"
    using assms(2,3) by simp_all
  have m: "mouse (snd (onTouchEnd hst ((x, y) # others) g))
           = (Some (2 * x / w - 1), Some (1 - 2 * y / h))"
    by (simp add: onTouchEnd_def Let_def assms(1) n(1) split: option.splits)
  have l: "\<forall>logs. debuglogs g = Some logs \<longrightarrow>
               onTouchEnd hst ((x, y) # others) g =
                 (None, g\<lparr>mouse := (Some (2 * x / w - 1), Some (1 - 2 * y / h)),
                          debuglogs := Some (logs @ [''RayCast -> '' @
                            getTouchedElementIdentifier (intersect hst) (scene g)
                              (Some (2 * x / w - 1), Some (1 - 2 * y / h)) (camera g)]),
                          console := console g @
                            [getTouchedElementIdentifier (intersect hst) (scene g)
                               (Some (2 * x / w - 1), Some (1 - 2 * y / h)) (camera g)]\<rparr>)"
    by (simp add: onTouchEnd_def Let_def assms(1) n(1))
  show ?thesis
    using n(2-5) ends m l by blast
qed

theorem touch_is_normalized_witness:
  "window (constructor True False (800, 600)) = (800, 600)
   \<and> mouse (snd (onTouchEnd plain_host [(200, 150)] (constructor True False (800, 600))))
       = (Some (- 1 / 2), Some (1 / 2))
   \<and> debuglogs (snd (onTouchEnd plain_host [(200, 150)] (constructor True False (800, 600))))
       = Some [''RayCast -> none'']"
proof -
  have w: "window (constructor True False (800, 600)) = (800, 600)"
    by (simp add: constructor_def)
  have l: "debuglogs (constructor True False (800, 600)) = Some []"
    by (simp add: constructor_def)
  have t: "getTouchedElementIdentifier (intersect plain_host)
             (scene (constructor True False (800, 600))) p c = ''none''" for p c
    by (simp add: getTouchedElementIdentifier_def resolve_def constructor_def)
  show ?thesis
    using touch_is_normalized[OF w, of 200 150 plain_host "[]"] w l t
    by auto
qed

section \<open>The phases of a game\<close>

lemmas game_defs = constructor_def init_def loadModels_def createSpotLight_def
  loadGeometries_def setPosition_def lookAtSomething_def initDeviceOrientation_def
  submit_def on_settled_def model_completed_def geometry_completed_def
  complete_load_def continuation_def prepare_def loop_def ended_def stats_begin_def stats_end_def
  retained_def geometry_descriptors_def created_light_def model_descriptors_def instantiate_def
  getByIdentifier_def plain_host_def onTouchEnd_def resizeViewport_def Let_def

lemma retained_all:
  "retained (batch_after load model_descriptors {..<length model_descriptors})
     = map instantiate model_descriptors"
  by (simp add: retained_def batch_after_def load_def model_descriptors_def upt_rec numeral_2_eq_2)

lemma created_geometries_loaded: "created_geometries = map instantiate geometry_descriptors"
  by (simp add: created_geometries_def geometry_descriptors_def instantiate_def)

lemma concat_slots:
  "concat (map ((\<lambda>x. case x of None \<Rightarrow> [] | Some a \<Rightarrow> [a])
                \<circ> (\<lambda>i. if i \<in> T then Some (f i) else None)) xs)
     = map f (filter (\<lambda>i. i \<in> T) xs)"
  by (induction xs) simp_all

lemma retained_batch_after:
  "retained (batch_after f descs T)
     = map (\<lambda>i. projr (f (descs ! i))) (filter (\<lambda>i. i \<in> T) [0..<length descs])"
  by (simp add: retained_def batch_after_def concat_slots)

lemma retained_failure: "retained (b\<lparr>failure := fl\<rparr>) = retained b"
  by (simp add: retained_def)

lemma map_nth_upt: "map (\<lambda>i. f (xs ! i)) [0..<length xs] = map f xs"
  by (rule nth_equalityI) simp_all

lemma geometry_names:
  "map asset_id (retained (batch_after load geometry_descriptors T))
     = map (\<lambda>i. d_identifier (geometry_descriptors ! i))
           (filter (\<lambda>i. i \<in> T) [0..<length geometry_descriptors])"
  by (simp add: retained_batch_after load_def instantiate_def comp_def)

lemma geometry_names_all:
  "map (\<lambda>i. d_identifier (geometry_descriptors ! i)) [0..<length geometry_descriptors]
     = [''Ground'', ''Skybox'', ''GreenCube'', ''BlueWall'']"
  unfolding map_nth_upt by (simp add: geometry_descriptors_def)

lemma geometry_names_distinct:
  "distinct (map asset_id (retained (batch_after load geometry_descriptors T)))"
  unfolding geometry_names
  by (rule distinct_map_filter) (simp add: geometry_names_all)

lemma geometry_names_known:
  "set (map asset_id (retained (batch_after load geometry_descriptors T)))
     \<subseteq> {''Ground'', ''Skybox'', ''GreenCube'', ''BlueWall''}"
proof -
  have "set (map (\<lambda>i. d_identifier (geometry_descriptors ! i))
               (filter (\<lambda>i. i \<in> T) [0..<length geometry_descriptors]))
        \<subseteq> set (map (\<lambda>i. d_identifier (geometry_descriptors ! i))
               [0..<length geometry_descriptors])"
    by auto
  then show ?thesis unfolding geometry_names geometry_names_all by simp
qed

lemma asset_id_setX: "map asset_id (setX name x things) = map asset_id things"
  by (induction things) simp_all

lemma prepare_loaded:
  assumes "geometries g = retained (batch_after load geometry_descriptors T)"
      and "models g = map instantiate model_descriptors"
      and "lights g = [created_light]" "scene g = []"
  shows "fst (prepare g) = None"
    and "drawable (scene (snd (prepare g))) (camera (snd (prepare g))) (controls (snd (prepare g)))"
    and "renderer (snd (prepare g)) = renderer g" "cover (snd (prepare g)) = cover g"
    and "permission_pending (snd (prepare g)) = permission_pending g"
    and "frames (snd (prepare g)) = frames g" "ticks (snd (prepare g)) = ticks g"
    and "model_batch (snd (prepare g)) = model_batch g"
    and "geometry_batch (snd (prepare g)) = geometry_batch g"
    and "lights (snd (prepare g)) = lights g"
proof -
  let ?gs = "geometries g" and ?ms = "map instantiate model_descriptors"
  have ms: "map asset_id ?ms = [''Fox'', ''IceTruck'']"
    by (simp add: model_descriptors_def instantiate_def)
  have li: "asset_id created_light = ''MainSpotLight''" by (simp add: created_light_def)
  have known: "set (map asset_id ?gs) \<subseteq> {''Ground'', ''Skybox'', ''GreenCube'', ''BlueWall''}"
    unfolding assms(1) by (rule geometry_names_known)
  have dg: "distinct (map asset_id ?gs)" unfolding assms(1) by (rule geometry_names_distinct)
  have apart: "''Fox'' \<notin> set (map asset_id ?gs)" "''IceTruck'' \<notin> set (map asset_id ?gs)"
              "''MainSpotLight'' \<notin> set (map asset_id ?gs)"
    using known by auto
  have 1: "distinct (map asset_id ([] @ ?gs))" using dg by simp
  have e2: "map asset_id (?gs @ ?ms) = map asset_id ?gs @ [''Fox'', ''IceTruck'']"
    unfolding map_append ms ..
  have e3: "map asset_id ((?gs @ ?ms) @ [created_light])
            = map asset_id ?gs @ [''Fox'', ''IceTruck'', ''MainSpotLight'']"
    unfolding map_append ms by (simp add: li)
  have 2: "distinct (map asset_id (?gs @ ?ms))" unfolding e2 using dg apart by simp
  have 3: "distinct (map asset_id ((?gs @ ?ms) @ [created_light]))"
    unfolding e3 using dg apart by simp
  have a1: "addThings (geometries g) (scene g) = Inr ?gs"
    using addThings_distinct[OF 1] by (simp add: assms(4))
  have a2: "addThings (models g) ?gs = Inr (?gs @ models g)"
    unfolding assms(2) by (rule addThings_distinct[OF 2])
  have a3: "addThings (lights g) (?gs @ models g) = Inr ((?gs @ models g) @ lights g)"
    unfolding assms(2,3) by (rule addThings_distinct[OF 3])
  obtain fox where fox: "getByIdentifier ''Fox'' (models g) = Some fox"
    unfolding assms(2) by (simp add: getByIdentifier_def model_descriptors_def instantiate_def)
  note unfold = prepare_def a1 a2 a3 fox Let_def
    setPosition_def lookAtSomething_def initDeviceOrientation_def
  show "fst (prepare g) = None" by (simp add: unfold)
  have sc: "scene (snd (prepare g)) = setX ''Fox'' 2 ((?gs @ models g) @ lights g)"
    by (simp add: unfold)
  have ids: "map asset_id (scene (snd (prepare g)))
             = map asset_id ?gs @ [''Fox'', ''IceTruck'', ''MainSpotLight'']"
    unfolding sc asset_id_setX assms(2,3) by (rule e3)
  have cam: "cam_position (camera (snd (prepare g))) = Some (3, 5, 10)"
            "cam_target (camera (snd (prepare g))) = Some (0, 5, 0)"
            "controls (snd (prepare g))"
    by (simp_all add: unfold)
  show "drawable (scene (snd (prepare g))) (camera (snd (prepare g))) (controls (snd (prepare g)))"
    unfolding drawable_def using ids known cam by blast
  show "renderer (snd (prepare g)) = renderer g" by (simp add: unfold)
  show "cover (snd (prepare g)) = cover g" by (simp add: unfold)
  show "permission_pending (snd (prepare g)) = permission_pending g" by (simp add: unfold)
  show "frames (snd (prepare g)) = frames g" by (simp add: unfold)
  show "ticks (snd (prepare g)) = ticks g" by (simp add: unfold)
  show "model_batch (snd (prepare g)) = model_batch g" by (simp add: unfold)
  show "geometry_batch (snd (prepare g)) = geometry_batch g" by (simp add: unfold)
  show "lights (snd (prepare g)) = lights g" by (simp add: unfold)
qed

lemma ended_fields:
  "fst (ended e g) = e"
  "ticks (snd (ended e g)) = ticks g @
     [\<lparr>t_scene = scene g, t_camera = camera g, t_controls = controls g, t_error = e\<rparr>]"
  "frames (snd (ended e g)) = frames g" "scene (snd (ended e g)) = scene g"
  "camera (snd (ended e g)) = camera g" "controls (snd (ended e g)) = controls g"
  "renderer (snd (ended e g)) = renderer g" "cover (snd (ended e g)) = cover g"
  "permission_pending (snd (ended e g)) = permission_pending g"
  "model_batch (snd (ended e g)) = model_batch g" "console (snd (ended e g)) = console g"
  "stats (snd (ended e g)) = stats g" "debugMode (snd (ended e g)) = debugMode g"
  "geometry_batch (snd (ended e g)) = geometry_batch g" "lights (snd (ended e g)) = lights g"
  by (simp_all add: ended_def)

lemma stats_begin_fields:
  assumes "stats_begin g = Inr g1"
  shows "ticks g1 = ticks g" "frames g1 = frames g" "scene g1 = scene g" "camera g1 = camera g"
    "controls g1 = controls g" "renderer g1 = renderer g" "cover g1 = cover g"
    "permission_pending g1 = permission_pending g" "model_batch g1 = model_batch g"
    "console g1 = console g" "debugMode g1 = debugMode g"
    "geometry_batch g1 = geometry_batch g" "lights g1 = lights g"
    "debugMode g \<Longrightarrow> stats g1 \<noteq> None"
  using assms by (auto simp: stats_begin_def split: if_splits option.splits)

lemma stats_end_fields:
  assumes "stats_end g = Inr g1"
  shows "ticks g1 = ticks g" "frames g1 = frames g" "scene g1 = scene g" "camera g1 = camera g"
    "controls g1 = controls g" "renderer g1 = renderer g" "cover g1 = cover g"
    "permission_pending g1 = permission_pending g" "model_batch g1 = model_batch g"
    "console g1 = console g" "debugMode g1 = debugMode g"
    "geometry_batch g1 = geometry_batch g" "lights g1 = lights g"
    "debugMode g \<Longrightarrow> stats g1 \<noteq> None"
  using assms by (auto simp: stats_end_def split: if_splits option.splits)

lemma loop_fields:
  "ticks (snd (loop h g)) = ticks g @
     [\<lparr>t_scene = scene g, t_camera = camera g, t_controls = controls g,
       t_error = fst (loop h g)\<rparr>]"
  "frames (snd (loop h g)) = frames g + 1" "scene (snd (loop h g)) = scene g"
  "camera (snd (loop h g)) = camera g" "controls (snd (loop h g)) = controls g"
  "renderer (snd (loop h g)) = renderer g" "cover (snd (loop h g)) = cover g"
  "permission_pending (snd (loop h g)) = permission_pending g"
  "model_batch (snd (loop h g)) = model_batch g" "console (snd (loop h g)) = console g"
  "debugMode (snd (loop h g)) = debugMode g"
  "geometry_batch (snd (loop h g)) = geometry_batch g" "lights (snd (loop h g)) = lights g"
  by (auto simp: loop_def Let_def ended_fields stats_begin_fields stats_end_fields
           split: sum.splits option.splits)

lemma complete_filled:
  "i < length descs \<Longrightarrow> i \<in> S \<Longrightarrow>
   complete_load i out (batch_after f descs S) = (batch_after f descs S, None)"
  by (simp add: complete_load_def batch_after_def)

lemma total_batch_after: "total (batch_after f descs S) = length descs"
  by (simp add: batch_after_def)

lemma batch_after_fields:
  "descriptors (batch_after f descs S) = descs" "failure (batch_after f descs S) = None"
  "completed (batch_after f descs S) = card S"
  by (simp_all add: batch_after_def)

lemma batch_after_grows:
  assumes "S \<subseteq> {..<length descs}" "i \<notin> S"
  shows "batch_after f descs (insert i S) \<noteq> batch_after f descs S"
proof
  assume "batch_after f descs (insert i S) = batch_after f descs S"
  then have "completed (batch_after f descs (insert i S)) = completed (batch_after f descs S)"
    by simp
  moreover have "finite S" using assms(1) finite_subset by blast
  ultimately show False using assms(2) by (simp add: batch_after_fields)
qed

lemma batch_after_failed:
  "(batch_after f descs S)\<lparr>failure := Some x\<rparr> \<noteq> batch_after f descs S"
proof
  assume "(batch_after f descs S)\<lparr>failure := Some x\<rparr> = batch_after f descs S"
  then have "failure ((batch_after f descs S)\<lparr>failure := Some x\<rparr>)
             = failure (batch_after f descs S)" by simp
  then show False by (simp add: batch_after_fields)
qed

lemma batch_after_unfailed: "(batch_after f descs S)\<lparr>failure := None\<rparr> = batch_after f descs S"
  by (simp add: batch_after_def)

lemma model_completed_full:
  "model_batch g = Some (batch_after f descs {..<length descs}) \<Longrightarrow>
   model_completed h i c g = (None, g)"
  by (cases "i < length descs")
     (simp_all add: model_completed_def total_batch_after complete_filled Let_def)

lemma model_completed_failed:
  "model_batch g = Some b \<Longrightarrow> failure b \<noteq> None \<Longrightarrow> model_completed h i c g = (None, g)"
  by (simp add: model_completed_def complete_after_failure Let_def)

lemma model_completed_none: "model_batch g = None \<Longrightarrow> model_completed h i c g = (None, g)"
  by (simp add: model_completed_def)

lemma geometry_completed_none:
  "geometry_batch g = None \<Longrightarrow> geometry_completed i c g = (None, g)"
  by (simp add: geometry_completed_def)

lemma geometry_completed_fields:
  "fst (geometry_completed i c g) = None"
  "renderer (snd (geometry_completed i c g)) = renderer g"
  "cover (snd (geometry_completed i c g)) = cover g"
  "permission_pending (snd (geometry_completed i c g)) = permission_pending g"
  "scene (snd (geometry_completed i c g)) = scene g"
  "camera (snd (geometry_completed i c g)) = camera g"
  "controls (snd (geometry_completed i c g)) = controls g"
  "frames (snd (geometry_completed i c g)) = frames g"
  "ticks (snd (geometry_completed i c g)) = ticks g"
  "model_batch (snd (geometry_completed i c g)) = model_batch g"
  "models (snd (geometry_completed i c g)) = models g"
  "lights (snd (geometry_completed i c g)) = lights g"
  "console (snd (geometry_completed i c g)) = console g"
  "stats (snd (geometry_completed i c g)) = stats g"
  "debugMode (snd (geometry_completed i c g)) = debugMode g"
  "(geometry_batch (snd (geometry_completed i c g)) = None) = (geometry_batch g = None)"
  by (simp_all add: geometry_completed_def Let_def split: option.splits prod.splits)

lemma geometry_okI:
  "T \<subseteq> {..<length geometry_descriptors} \<Longrightarrow>
   geometry_batch g = Some ((batch_after load geometry_descriptors T)\<lparr>failure := fl\<rparr>) \<Longrightarrow>
   geometries g = retained (batch_after load geometry_descriptors T) \<Longrightarrow> geometry_ok g"
  unfolding geometry_ok_def by blast

lemma geometry_ok_step:
  assumes "geometry_ok g"
  shows "geometry_ok (snd (geometry_completed i c g))"
proof -
  let ?B = "batch_after load geometry_descriptors"
  obtain T fl where T: "T \<subseteq> {..<length geometry_descriptors}"
    and gb: "geometry_batch g = Some ((?B T)\<lparr>failure := fl\<rparr>)"
    and gs: "geometries g = retained (?B T)"
    using assms unfolding geometry_ok_def by blast
  show ?thesis
  proof (cases "fl = None \<and> i < length geometry_descriptors \<and> i \<notin> T")
    case False
    have "geometry_completed i c g = (None, g)"
    proof (cases "fl = None")
      case True
      then have b: "geometry_batch g = Some (?B T)" using gb by (simp add: batch_after_unfailed)
      show ?thesis using False True
        by (cases "i < length geometry_descriptors")
           (simp_all add: geometry_completed_def b total_batch_after complete_filled Let_def)
    next
      case False
      then have "failure ((?B T)\<lparr>failure := fl\<rparr>) \<noteq> None" by simp
      then show ?thesis by (simp add: geometry_completed_def gb complete_after_failure Let_def)
    qed
    then show ?thesis using assms by simp
  next
    case True
    then have b: "geometry_batch g = Some (?B T)" using gb by (simp add: batch_after_unfailed)
    have i: "i < length geometry_descriptors" "i \<notin> T" using True by simp_all
    show ?thesis
    proof (cases c)
      case None
      have l: "load (geometry_descriptors ! i) = Inr (instantiate (geometry_descriptors ! i))"
        by (simp add: load_def)
      note cl = complete_loaded[where onEach=load and descs=geometry_descriptors, OF T i l]
      have st: "snd (geometry_completed i c g)
                = g\<lparr>geometry_batch := Some (?B (insert i T)),
                     geometries := retained (?B (insert i T))\<rparr>"
        using i(1) batch_after_grows[OF T i(2), of load]
        by (simp add: geometry_completed_def b None total_batch_after batch_after_fields cl Let_def)
      have sub: "insert i T \<subseteq> {..<length geometry_descriptors}" using T i(1) by simp
      show ?thesis
        by (rule geometry_okI[where T="insert i T" and fl=None, OF sub])
           (simp_all add: st batch_after_unfailed)
    next
      case (Some cause)
      let ?x = "AssetLoadError (d_identifier (geometry_descriptors ! i)) cause"
      note cf = complete_failed[where onEach=load and descs=geometry_descriptors, OF i]
      have st: "snd (geometry_completed i c g)
                = g\<lparr>geometry_batch := Some ((?B T)\<lparr>failure := Some ?x\<rparr>),
                     geometries := retained ((?B T)\<lparr>failure := Some ?x\<rparr>)\<rparr>"
        using i(1) batch_after_failed[where f=load and descs=geometry_descriptors and S=T and x="?x"]
        by (simp add: geometry_completed_def b Some total_batch_after cf Let_def)
      show ?thesis
        by (rule geometry_okI[where T=T and fl="Some ?x", OF T])
           (simp_all add: st retained_failure)
    qed
  qed
qed

lemma onTouchEnd_fields:
  "renderer (snd (onTouchEnd h ts g)) = renderer g" "cover (snd (onTouchEnd h ts g)) = cover g"
  "permission_pending (snd (onTouchEnd h ts g)) = permission_pending g"
  "scene (snd (onTouchEnd h ts g)) = scene g" "camera (snd (onTouchEnd h ts g)) = camera g"
  "controls (snd (onTouchEnd h ts g)) = controls g" "frames (snd (onTouchEnd h ts g)) = frames g"
  "ticks (snd (onTouchEnd h ts g)) = ticks g"
  "model_batch (snd (onTouchEnd h ts g)) = model_batch g"
  "geometry_batch (snd (onTouchEnd h ts g)) = geometry_batch g"
  "geometries (snd (onTouchEnd h ts g)) = geometries g"
  "models (snd (onTouchEnd h ts g)) = models g" "lights (snd (onTouchEnd h ts g)) = lights g"
  by (simp_all add: onTouchEnd_def Let_def split: list.splits option.splits)

lemma resizeViewport_fields:
  "(renderer (snd (resizeViewport g)) = None) = (renderer g = None)"
  "cover (snd (resizeViewport g)) = cover g"
  "permission_pending (snd (resizeViewport g)) = permission_pending g"
  "scene (snd (resizeViewport g)) = scene g"
  "cam_position (camera (snd (resizeViewport g))) = cam_position (camera g)"
  "cam_target (camera (snd (resizeViewport g))) = cam_target (camera g)"
  "controls (snd (resizeViewport g)) = controls g" "frames (snd (resizeViewport g)) = frames g"
  "ticks (snd (resizeViewport g)) = ticks g"
  "model_batch (snd (resizeViewport g)) = model_batch g"
  "geometry_batch (snd (resizeViewport g)) = geometry_batch g"
  "geometries (snd (resizeViewport g)) = geometries g"
  "models (snd (resizeViewport g)) = models g" "lights (snd (resizeViewport g)) = lights g"
  by (simp_all add: resizeViewport_def split: prod.splits option.splits)

lemma geometry_ok_cong:
  "geometry_batch g' = geometry_batch g \<Longrightarrow> geometries g' = geometries g \<Longrightarrow>
   geometry_ok g' = geometry_ok g"
  by (simp add: geometry_ok_def)

lemma running_step: "running g \<Longrightarrow> running (snd (step h e g))"
proof (cases e)
  case Click
  assume "running g" then show ?thesis using Click by (simp add: running_def)
next
  case (PermissionResponse r)
  assume "running g" then show ?thesis using PermissionResponse by (simp add: running_def)
next
  case (PermissionRejected r)
  assume "running g" then show ?thesis using PermissionRejected by (simp add: running_def)
next
  case (GeometryLoaded i)
  assume "running g" then show ?thesis
    using GeometryLoaded by (simp add: running_def geometry_completed_fields)
next
  case (GeometryFailed i c)
  assume "running g" then show ?thesis
    using GeometryFailed by (simp add: running_def geometry_completed_fields)
next
  case (ModelLoaded i)
  assume "running g" then show ?thesis
    using ModelLoaded by (simp add: running_def model_completed_full)
next
  case (ModelFailed i c)
  assume "running g" then show ?thesis
    using ModelFailed by (simp add: running_def model_completed_full)
next
  case AnimationFrame
  assume "running g" then show ?thesis
    using AnimationFrame by (simp add: running_def loop_fields)
next
  case (TouchEnd ts)
  assume "running g" then show ?thesis
    using TouchEnd by (simp add: running_def onTouchEnd_fields)
next
  case (Resize w hh)
  assume "running g" then show ?thesis
    using Resize by (simp add: running_def resizeViewport_fields drawable_def)
qed

lemma awaiting_geometry_completed:
  "awaiting g \<Longrightarrow> awaiting (snd (geometry_completed i c g))"
  by (simp add: awaiting_def geometry_completed_fields geometry_ok_step)

lemma awaiting_onTouchEnd: "awaiting g \<Longrightarrow> awaiting (snd (onTouchEnd h ts g))"
  by (simp add: awaiting_def onTouchEnd_fields
        geometry_ok_cong[of "snd (onTouchEnd h ts g)" g])

lemma awaiting_resizeViewport: "awaiting g \<Longrightarrow> awaiting (snd (resizeViewport (g\<lparr>window := w\<rparr>)))"
proof -
  assume a: "awaiting g"
  have "geometry_ok (snd (resizeViewport (g\<lparr>window := w\<rparr>))) = geometry_ok g"
    by (rule geometry_ok_cong) (simp_all add: resizeViewport_fields)
  then show ?thesis using a by (simp add: awaiting_def resizeViewport_fields)
qed

lemma failed_step: "failed_with x g \<Longrightarrow> failed_with x (snd (step h e g))"
proof (cases e)
  case Click
  assume "failed_with x g" then show ?thesis
    using Click by (simp add: failed_with_def awaiting_def)
next
  case (PermissionResponse r)
  assume "failed_with x g" then show ?thesis
    using PermissionResponse by (simp add: failed_with_def awaiting_def)
next
  case (PermissionRejected r)
  assume "failed_with x g" then show ?thesis
    using PermissionRejected by (simp add: failed_with_def awaiting_def)
next
  case (GeometryLoaded i)
  assume "failed_with x g" then show ?thesis
    using GeometryLoaded
    by (simp add: failed_with_def awaiting_geometry_completed geometry_completed_fields)
next
  case (GeometryFailed i c)
  assume "failed_with x g" then show ?thesis
    using GeometryFailed
    by (simp add: failed_with_def awaiting_geometry_completed geometry_completed_fields)
next
  case (ModelLoaded i)
  assume "failed_with x g" then show ?thesis
    using ModelLoaded by (auto simp: failed_with_def model_completed_failed)
next
  case (ModelFailed i c)
  assume "failed_with x g" then show ?thesis
    using ModelFailed by (auto simp: failed_with_def model_completed_failed)
next
  case AnimationFrame
  assume "failed_with x g" then show ?thesis
    using AnimationFrame by (simp add: failed_with_def awaiting_def)
next
  case (TouchEnd ts)
  assume "failed_with x g" then show ?thesis
    using TouchEnd by (simp add: failed_with_def awaiting_onTouchEnd onTouchEnd_fields)
next
  case (Resize w hh)
  assume "failed_with x g" then show ?thesis
    using Resize by (simp add: failed_with_def awaiting_resizeViewport resizeViewport_fields)
qed

lemma submit_models: "submit model_descriptors = (batch_after load model_descriptors {}, None)"
  using submit_batch_after[of model_descriptors load] by (simp add: model_descriptors_def)

lemma submit_geometries:
  "submit geometry_descriptors = (batch_after load geometry_descriptors {}, None)"
  using submit_batch_after[of geometry_descriptors load] by (simp add: geometry_descriptors_def)

lemma retained_none: "retained (batch_after f descs {}) = []"
  by (simp add: retained_def batch_after_def)

lemma init_eq:
  "init h g =
     (None, g\<lparr>renderer := Some \<lparr>antialias = highPerf g, shadowMap_enabled = True,
                                   renderer_size = window g\<rparr>,
              lights := lights g @ [created_light],
              geometry_batch := Some (batch_after load geometry_descriptors {}),
              geometries := [],
              model_batch := Some (batch_after load model_descriptors {}),
              models := []\<rparr>)"
  by (simp add: init_def loadModels_def createSpotLight_def loadGeometries_def Let_def
        submit_models submit_geometries retained_none on_settled_def)

lemma models_nonempty: "{} \<noteq> {..<length model_descriptors}"
proof -
  have "0 \<in> {..<length model_descriptors}" by (simp add: model_descriptors_def)
  then show ?thesis by blast
qed

lemma loadingI:
  "awaiting g \<Longrightarrow> S \<subseteq> {..<length model_descriptors} \<Longrightarrow> S \<noteq> {..<length model_descriptors}
   \<Longrightarrow> model_batch g = Some (batch_after load model_descriptors S) \<Longrightarrow> loading g"
  unfolding loading_def by blast

lemma loading_after_init:
  assumes "stopped g" "\<not> cover g" "\<not> permission_pending g"
  shows "loading (snd (init h g))"
proof (rule loadingI[where S="{}"])
  have "geometry_ok (snd (init h g))"
    by (rule geometry_okI[where T="{}" and fl=None])
       (simp_all add: init_eq batch_after_unfailed retained_none)
  then show "awaiting (snd (init h g))"
    using assms by (simp add: init_eq awaiting_def stopped_def)
  show "{} \<subseteq> {..<length model_descriptors}" by simp
  show "{} \<noteq> {..<length model_descriptors}" by (rule models_nonempty)
  show "model_batch (snd (init h g)) = Some (batch_after load model_descriptors {})"
    by (simp add: init_eq)
qed

lemma not_load_error [simp]:
  "\<not> is_load_error (TypeError m)" "\<not> is_load_error (EngineError m)"
  "\<not> is_load_error (ReferenceError m)"
  "\<not> is_load_error (DuplicateIdentifierError m)" "is_load_error (AssetLoadError n c)"
  by (simp_all add: is_load_error_def)

lemma quiet_simps [simp]: "quiet None" "quiet (Some e) = (\<not> is_load_error e)"
  by (simp_all add: quiet_def)















lemma stopped_step:
  assumes "stopped g"
  shows "stopped (snd (step h e g)) \<or> loading (snd (step h e g))"
proof (cases e)
  case Click
  show ?thesis
  proof (cases "cover g \<and> deviceOrientationEvent h = WithoutRequestPermission")
    case True
    let ?g1 = "g\<lparr>cover := False\<rparr>"
    have s: "step h e g = init h ?g1" using Click True by simp
    have "stopped ?g1" "\<not> cover ?g1" "\<not> permission_pending ?g1"
      using assms True by (simp_all add: stopped_def)
    then have "loading (snd (init h ?g1))" by (rule loading_after_init)
    then show ?thesis using s by simp
  next
    case False
    then have "stopped (snd (step h e g))"
      using assms Click
      by (cases "deviceOrientationEvent h") (auto simp: stopped_def Let_def split: if_splits)
    then show ?thesis ..
  qed
next
  case (PermissionResponse r)
  show ?thesis
  proof (cases "permission_pending g \<and> r = ''granted''")
    case True
    let ?g1 = "g\<lparr>permission_pending := False\<rparr>"
    have s: "step h e g = init h ?g1" using PermissionResponse True by (simp add: init_eq)
    have "stopped ?g1" "\<not> cover ?g1" "\<not> permission_pending ?g1"
      using assms True by (simp_all add: stopped_def)
    then have "loading (snd (init h ?g1))" by (rule loading_after_init)
    then show ?thesis using s by simp
  next
    case False
    then have "stopped (snd (step h e g))"
      using assms PermissionResponse by (auto simp: stopped_def Let_def split: if_splits)
    then show ?thesis ..
  qed
next
  case (PermissionRejected r)
  then show ?thesis using assms by (auto simp: stopped_def split: if_splits)
next
  case (GeometryLoaded i)
  then show ?thesis using assms by (auto simp: stopped_def geometry_completed_none)
next
  case (GeometryFailed i c)
  then show ?thesis using assms by (auto simp: stopped_def geometry_completed_none)
next
  case (ModelLoaded i)
  then show ?thesis using assms by (auto simp: stopped_def model_completed_none)
next
  case (ModelFailed i c)
  then show ?thesis using assms by (auto simp: stopped_def model_completed_none)
next
  case AnimationFrame
  then show ?thesis using assms by (auto simp: stopped_def)
next
  case (TouchEnd ts)
  then show ?thesis using assms by (simp add: stopped_def onTouchEnd_fields)
next
  case (Resize w hh)
  then show ?thesis using assms by (simp add: stopped_def resizeViewport_fields)
qed

lemma model_loaded_step:
  assumes "model_batch g = Some (batch_after load model_descriptors S)"
      and "S \<subseteq> {..<length model_descriptors}" "i < length model_descriptors" "i \<notin> S"
  shows "model_completed h i None g =
           on_settled h
             (if insert i S = {..<length model_descriptors}
              then Some (Resolved (map (\<lambda>d. projr (load d)) model_descriptors)) else None)
             (g\<lparr>model_batch := Some (batch_after load model_descriptors (insert i S)),
                models := retained (batch_after load model_descriptors (insert i S))\<rparr>)"
proof -
  have l: "load (model_descriptors ! i) = Inr (instantiate (model_descriptors ! i))"
    by (simp add: load_def)
  note c = complete_loaded[where onEach=load and descs=model_descriptors, OF assms(2,3,4) l]
  show ?thesis
    using assms(3) batch_after_grows[OF assms(2,4), of load]
    by (simp add: model_completed_def assms(1) total_batch_after batch_after_fields c Let_def)
qed

lemma model_failed_step:
  assumes "model_batch g = Some (batch_after load model_descriptors S)"
      and "i < length model_descriptors" "i \<notin> S"
  shows "model_completed h i (Some cause) g =
           (None,
            g\<lparr>model_batch := Some ((batch_after load model_descriptors S)
                   \<lparr>failure := Some (AssetLoadError (d_identifier (model_descriptors ! i)) cause)\<rparr>),
               models := retained ((batch_after load model_descriptors S)
                   \<lparr>failure := Some (AssetLoadError (d_identifier (model_descriptors ! i)) cause)\<rparr>)\<rparr>)"
proof -
  note c = complete_failed[where onEach=load and descs=model_descriptors, OF assms(2,3)]
  note ne = batch_after_failed[where f=load and descs=model_descriptors and S=S
      and x="AssetLoadError (d_identifier (model_descriptors ! i)) cause"]
  show ?thesis
    using assms(2) ne
    by (simp add: model_completed_def assms(1) total_batch_after c Let_def on_settled_def)
qed

lemma continuation_running:
  assumes "awaiting g" "models g = map instantiate model_descriptors"
      and "model_batch g = Some (batch_after load model_descriptors {..<length model_descriptors})"
  shows "running (snd (continuation h g))"
proof -
  obtain T where gs: "geometries g = retained (batch_after load geometry_descriptors T)"
    and gb: "geometry_batch g \<noteq> None"
    using assms(1) unfolding awaiting_def geometry_ok_def by auto
  have pre: "lights g = [created_light]" "scene g = []"
    using assms(1) by (simp_all add: awaiting_def)
  note p = prepare_loaded[OF gs assms(2) pre]
  have c: "continuation h g = loop h (snd (prepare g))"
    using p(1) by (cases "prepare g") (simp add: continuation_def)
  show "running (snd (continuation h g))"
    using assms(1,3) gb p(2-) by (simp add: c running_def loop_fields awaiting_def)
qed

lemma awaiting_update [simp]:
  "awaiting (g\<lparr>model_batch := b, models := m\<rparr>) = awaiting g"
  by (simp add: awaiting_def geometry_ok_def)

lemma loading_idle:
  assumes "loading g"
  shows "step h Click g = (None, g)" "step h (PermissionResponse r) g = (None, g)"
        "step h (PermissionRejected r) g = (None, g)" "step h AnimationFrame g = (None, g)"
  using assms by (simp_all add: loading_def awaiting_def)

lemma loading_step:
  assumes "loading g"
  shows "loading (snd (step h e g)) \<or> running (snd (step h e g))
         \<or> (\<exists>x. failed_with x (snd (step h e g)))"
proof -
  obtain S where S: "S \<subseteq> {..<length model_descriptors}" "S \<noteq> {..<length model_descriptors}"
      "model_batch g = Some (batch_after load model_descriptors S)" and aw: "awaiting g"
    using assms(1) unfolding loading_def by blast
  show ?thesis
  proof (cases e)
    case Click
    then show ?thesis using assms loading_idle(1)[OF assms(1)] by simp
  next
    case (PermissionResponse r)
    then show ?thesis using assms loading_idle(2)[OF assms(1)] by simp
  next
    case (PermissionRejected r)
    then show ?thesis using assms loading_idle(3)[OF assms(1)] by simp
  next
    case AnimationFrame
    then show ?thesis using assms loading_idle(4)[OF assms(1)] by simp
  next
    case (GeometryLoaded i)
    have "loading (snd (geometry_completed i None g))"
      using S by (intro loadingI[where S=S] awaiting_geometry_completed[OF aw])
                 (simp_all add: geometry_completed_fields)
    then show ?thesis using GeometryLoaded by simp
  next
    case (GeometryFailed i c)
    have "loading (snd (geometry_completed i (Some c) g))"
      using S by (intro loadingI[where S=S] awaiting_geometry_completed[OF aw])
                 (simp_all add: geometry_completed_fields)
    then show ?thesis using GeometryFailed by simp
  next
    case (TouchEnd ts)
    have "loading (snd (onTouchEnd h ts g))"
      using S by (intro loadingI[where S=S] awaiting_onTouchEnd[OF aw])
                 (simp_all add: onTouchEnd_fields)
    then show ?thesis using TouchEnd by simp
  next
    case (Resize w hh)
    have "loading (snd (resizeViewport (g\<lparr>window := (w, hh)\<rparr>)))"
      using S by (intro loadingI[where S=S] awaiting_resizeViewport[OF aw])
                 (simp_all add: resizeViewport_fields)
    then show ?thesis using Resize by simp
  next
    case (ModelLoaded i)
    show ?thesis
    proof (cases "i < length model_descriptors \<and> i \<notin> S")
      case False
      then have "model_completed h i None g = (None, g)"
        using S(3) by (cases "i < length model_descriptors")
          (simp_all add: model_completed_def total_batch_after complete_filled Let_def)
      then show ?thesis using assms ModelLoaded by simp
    next
      case True
      let ?b = "batch_after load model_descriptors (insert i S)"
      let ?g1 = "g\<lparr>model_batch := Some ?b, models := retained ?b\<rparr>"
      note st = model_loaded_step[OF S(3) S(1), of i h]
      show ?thesis
      proof (cases "insert i S = {..<length model_descriptors}")
        case full: True
        have m: "models ?g1 = map instantiate model_descriptors"
          by (simp add: full retained_all)
        have b: "model_batch ?g1
                 = Some (batch_after load model_descriptors {..<length model_descriptors})"
          by (simp add: full)
        have a: "awaiting ?g1" using aw by simp
        have "step h e g = continuation h ?g1"
          using ModelLoaded st True full by (simp add: on_settled_def)
        then show ?thesis
          using continuation_running[OF a m b, of h] by simp
      next
        case part: False
        have "step h e g = (None, ?g1)"
          using ModelLoaded st True part by (simp add: on_settled_def)
        moreover have "loading ?g1"
          using aw S(1) True part by (intro loadingI[where S="insert i S"]) simp_all
        ultimately show ?thesis by simp
      qed
    qed
  next
    case (ModelFailed i c)
    show ?thesis
    proof (cases "i < length model_descriptors \<and> i \<notin> S")
      case False
      then have "model_completed h i (Some c) g = (None, g)"
        using S(3) by (cases "i < length model_descriptors")
          (simp_all add: model_completed_def total_batch_after complete_filled Let_def)
      then show ?thesis using assms ModelFailed by simp
    next
      case True
      let ?x = "AssetLoadError (d_identifier (model_descriptors ! i)) c"
      note st = model_failed_step[OF S(3), of i h c]
      let ?g1 = "g\<lparr>model_batch := Some ((batch_after load model_descriptors S)\<lparr>failure := Some ?x\<rparr>),
               models := retained ((batch_after load model_descriptors S)\<lparr>failure := Some ?x\<rparr>)\<rparr>"
      have "step h e g = (None, ?g1)" using ModelFailed st True by simp
      moreover have "failed_with ?x ?g1"
        using aw by (simp add: failed_with_def)
      ultimately show ?thesis by auto
    qed
  qed
qed

lemma reached_step:
  assumes "reached g"
  shows "reached (snd (step h e g))"
proof -
  consider (stopped) "stopped g" | (loading) "loading g" | (running) "running g"
    | (failed) x where "failed_with x g"
    using assms unfolding reached_def by blast
  then show ?thesis
  proof cases
    case stopped
    from stopped_step[OF stopped, of h e] show ?thesis unfolding reached_def by blast
  next
    case loading
    from loading_step[OF loading, of h e] show ?thesis unfolding reached_def by blast
  next
    case running
    from running_step[OF running, of h e] show ?thesis unfolding reached_def by blast
  next
    case failed
    from failed_step[OF failed, of h e] show ?thesis unfolding reached_def by blast
  qed
qed

lemma reached_run: "reached g \<Longrightarrow> reached (run h es g)"
proof (induction es arbitrary: g)
  case Nil
  then show ?case by simp
next
  case (Cons e es)
  have "reached (run h es (snd (step h e g)))"
    by (rule Cons.IH) (rule reached_step[OF Cons.prems])
  then show ?case by simp
qed

lemma stopped_constructor: "stopped (constructor dbg hp win)"
  by (simp add: stopped_def constructor_def)

lemma reached_from_constructor: "reached (run h es (constructor dbg hp win))"
  by (rule reached_run) (simp add: reached_def stopped_constructor)

lemma run_append: "run h (es @ es') g = run h es' (run h es g)"
  by (induction es arbitrary: g) simp_all

section \<open>The loop starts after the models and the setup\<close>

lemma running_run: "running g \<Longrightarrow> running (run h es g)"
  by (induction es arbitrary: g) (simp_all add: running_step)

lemma reached_cases:
  assumes "reached g"
  obtains "stopped g" | "loading g" | "running g" | x where "failed_with x g"
  using assms unfolding reached_def by blast

lemma frames_running: "reached g \<Longrightarrow> 0 < frames g \<or> ticks g \<noteq> [] \<Longrightarrow> running g"
  by (erule reached_cases) (auto simp: stopped_def loading_def failed_with_def awaiting_def)





section \<open>A load that fails\<close>






section \<open>The loop once started\<close>

lemma stats_ok_loop: "stats_ok g \<Longrightarrow> stats_ok (snd (loop h g))"
  by (auto simp: stats_ok_def loop_def Let_def ended_def stats_begin_def stats_end_def
           split: sum.splits option.splits if_splits)

lemma stats_ok_prepare: "stats_ok g \<Longrightarrow> stats_ok (snd (prepare g))"
  by (simp add: stats_ok_def prepare_def manager_defs Let_def split: sum.splits option.splits)

lemma stats_ok_continuation: "stats_ok g \<Longrightarrow> stats_ok (snd (continuation h g))"
  using stats_ok_prepare[of g] stats_ok_loop[of "snd (prepare g)" h]
  by (auto simp: continuation_def split: prod.splits option.splits)

lemma stats_ok_on_settled: "stats_ok g \<Longrightarrow> stats_ok (snd (on_settled h s g))"
  by (simp add: on_settled_def stats_ok_continuation split: option.splits settlement.splits)

lemma stats_ok_update [simp]:
  "stats_ok (g\<lparr>model_batch := b, models := m\<rparr>) = stats_ok g"
  "stats_ok (g\<lparr>cover := c\<rparr>) = stats_ok g"
  "stats_ok (g\<lparr>permission_pending := p\<rparr>) = stats_ok g"
  "stats_ok (g\<lparr>console := l\<rparr>) = stats_ok g"
  "stats_ok (g\<lparr>frames := n\<rparr>) = stats_ok g"
  "stats_ok (g\<lparr>window := w\<rparr>) = stats_ok g"
  by (simp_all add: stats_ok_def)

lemma stats_ok_model_completed: "stats_ok g \<Longrightarrow> stats_ok (snd (model_completed h i c g))"
  by (simp add: model_completed_def Let_def stats_ok_on_settled split: option.splits prod.splits)

lemma stats_ok_step: "stats_ok g \<Longrightarrow> stats_ok (snd (step h e g))"
proof (cases e)
  case Click
  assume "stats_ok g" then show ?thesis using Click
    by (cases "deviceOrientationEvent h") (simp_all add: init_eq Let_def stats_ok_def)
next
  case (PermissionResponse r)
  assume "stats_ok g" then show ?thesis using PermissionResponse
    by (simp add: init_eq Let_def) (simp add: stats_ok_def)
next
  case (PermissionRejected r)
  assume "stats_ok g" then show ?thesis using PermissionRejected by simp
next
  case (GeometryLoaded i)
  assume "stats_ok g" then show ?thesis using GeometryLoaded
    by (simp add: stats_ok_def geometry_completed_fields)
next
  case (GeometryFailed i c)
  assume "stats_ok g" then show ?thesis using GeometryFailed
    by (simp add: stats_ok_def geometry_completed_fields)
next
  case (ModelLoaded i)
  assume "stats_ok g" then show ?thesis using ModelLoaded by (simp add: stats_ok_model_completed)
next
  case (ModelFailed i c)
  assume "stats_ok g" then show ?thesis using ModelFailed by (simp add: stats_ok_model_completed)
next
  case AnimationFrame
  assume "stats_ok g" then show ?thesis using AnimationFrame by (simp add: stats_ok_loop)
next
  case (TouchEnd ts)
  assume "stats_ok g" then show ?thesis using TouchEnd
    by (simp add: stats_ok_def onTouchEnd_def Let_def split: list.splits option.splits)
next
  case (Resize w hh)
  assume "stats_ok g" then show ?thesis using Resize
    by (simp add: stats_ok_def resizeViewport_def split: prod.splits option.splits)
qed

lemma stats_ok_run: "stats_ok g \<Longrightarrow> stats_ok (run h es g)"
  by (induction es arbitrary: g) (simp_all add: stats_ok_step)

lemma stats_ok_constructor: "stats_ok (run h es (constructor dbg hp win))"
  by (rule stats_ok_run) (simp add: stats_ok_def constructor_def)

lemma loop_error:
  assumes "stats_ok g" "renderer g \<noteq> None"
  shows "fst (loop h g) =
           (case update_throws h (length (ticks g)) of
              Some m \<Rightarrow> Some (EngineError m)
            | None \<Rightarrow> (case render_throws h (length (ticks g)) of
                          Some m \<Rightarrow> Some (EngineError m) | None \<Rightarrow> None))"
  using assms
  by (auto simp: stats_ok_def loop_def Let_def ended_def stats_begin_def stats_end_def
           split: sum.splits option.splits if_splits)

lemma loop_debuglogs: "debuglogs (snd (loop h g)) = debuglogs g"
  by (auto simp: loop_def Let_def ended_def stats_begin_def stats_end_def
           split: sum.splits option.splits if_splits)

lemma running_frame:
  assumes "running g"
  shows "frames g = 1" "frames (snd (step h AnimationFrame g)) = 1"
        "length (ticks (snd (step h AnimationFrame g))) = length (ticks g) + 1"
  using assms by (simp_all add: running_def loop_fields)

text \<open>
  C6, as amended.  The loop has no stop flag: once it has started, after any further events
  exactly one frame is requested, and every frame that is delivered executes a tick and
  leaves one frame requested.  It ends only if the page stops delivering frames.
\<close>

theorem loop_has_no_stop_flag:
  assumes "0 < frames (run h es (constructor dbg hp win))
           \<or> ticks (run h es (constructor dbg hp win)) \<noteq> []"
  shows "frames (run h (es @ es') (constructor dbg hp win)) = 1
       \<and> frames (run h (es @ es' @ [AnimationFrame]) (constructor dbg hp win)) = 1
       \<and> length (ticks (run h (es @ es' @ [AnimationFrame]) (constructor dbg hp win)))
           = length (ticks (run h (es @ es') (constructor dbg hp win))) + 1"
proof -
  have "running (run h es (constructor dbg hp win))"
    using frames_running[OF reached_from_constructor] assms by blast
  then have r: "running (run h (es @ es') (constructor dbg hp win))"
    by (simp add: run_append running_run)
  have a: "run h (es @ es' @ [AnimationFrame]) (constructor dbg hp win)
           = snd (step h AnimationFrame (run h (es @ es') (constructor dbg hp win)))"
    using run_append[of h "es @ es'" "[AnimationFrame]"] by simp
  show ?thesis unfolding a using running_frame[OF r] by simp
qed

theorem loop_has_no_stop_flag_witness:
  "0 < frames (run plain_host [Click, ModelLoaded 0, ModelLoaded 1] (constructor True False (800, 600)))
   \<and> frames (run plain_host ([Click, ModelLoaded 0, ModelLoaded 1] @ [TouchEnd [(1, 1)], Resize 10 10])
        (constructor True False (800, 600))) = 1
   \<and> length (ticks (run plain_host
        ([Click, ModelLoaded 0, ModelLoaded 1] @ [TouchEnd [(1, 1)], Resize 10 10] @ [AnimationFrame])
        (constructor True False (800, 600))))
       = length (ticks (run plain_host
        ([Click, ModelLoaded 0, ModelLoaded 1] @ [TouchEnd [(1, 1)], Resize 10 10])
        (constructor True False (800, 600)))) + 1"
proof -
  have f: "0 < frames (run plain_host [Click, ModelLoaded 0, ModelLoaded 1]
                    (constructor True False (800, 600)))"
    by (simp add: game_defs)
  show ?thesis
    using f loop_has_no_stop_flag[OF disjI1[OF f], of "[TouchEnd [(1, 1)], Resize 10 10]"]
    by blast
qed

text \<open>
  C6, as stated, fails: in the game that a click and the two model loads have started, no
  sequence of events leads to a state in which a delivered frame executes no tick.
\<close>

theorem loop_stop_flag_counterexample:
  "\<not> (\<exists>es. length (ticks (run plain_host (es @ [AnimationFrame])
                (run plain_host [Click, ModelLoaded 0, ModelLoaded 1]
                   (constructor True False (800, 600)))))
           = length (ticks (run plain_host es
                (run plain_host [Click, ModelLoaded 0, ModelLoaded 1]
                   (constructor True False (800, 600))))))"
proof
  let ?g = "run plain_host [Click, ModelLoaded 0, ModelLoaded 1] (constructor True False (800, 600))"
  assume "\<exists>es. length (ticks (run plain_host (es @ [AnimationFrame]) ?g))
               = length (ticks (run plain_host es ?g))"
  then obtain es where es: "length (ticks (run plain_host (es @ [AnimationFrame]) ?g))
               = length (ticks (run plain_host es ?g))" by blast
  have "0 < frames ?g" by (simp add: game_defs)
  then have "running ?g" using frames_running[OF reached_from_constructor] by blast
  then have "running (run plain_host es ?g)" by (rule running_run)
  then have "length (ticks (snd (step plain_host AnimationFrame (run plain_host es ?g))))
             = length (ticks (run plain_host es ?g)) + 1"
    by (rule running_frame)
  then show False using es by (simp add: run_append)
qed

text \<open>
  Whenever a frame is requested, the conditions under which the next theorem speaks of a
  tick hold: the renderer exists and, in debug mode, so does the statistics widget.
\<close>

lemma started_game_can_tick:
  assumes "0 < frames (run h es (constructor dbg hp win))"
  shows "renderer (run h es (constructor dbg hp win)) \<noteq> None
       \<and> (debugMode (run h es (constructor dbg hp win))
            \<longrightarrow> stats (run h es (constructor dbg hp win)) \<noteq> None)"
proof -
  have "running (run h es (constructor dbg hp win))"
    using frames_running[OF reached_from_constructor] assms by blast
  then have "renderer (run h es (constructor dbg hp win)) \<noteq> None"
    by (simp add: running_def)
  then show ?thesis
    using stats_ok_constructor[of h es dbg hp win] by (simp add: stats_ok_def)
qed

text \<open>
  C7, as amended.  When the controls update or the render primitive throws in a tick, the
  loop neither catches nor logs the error: it leaves the tick to whoever called it, the
  console and the debug log are as before, the rest of the tick is skipped (the tick draws
  nothing and, in debug mode, the statistics are begun and not ended); the next frame was
  requested before, so one more frame is requested than at the start of the tick, and the
  next frame that is delivered executes a tick.
\<close>

theorem throwing_tick_escapes_unlogged:
  assumes "renderer g \<noteq> None" and "debugMode g \<longrightarrow> stats g \<noteq> None"
      and "update_throws h (length (ticks g)) = Some m
           \<or> (update_throws h (length (ticks g)) = None
               \<and> render_throws h (length (ticks g)) = Some m)"
  shows "fst (loop h g) = Some (EngineError m)
       \<and> console (snd (loop h g)) = console g
       \<and> debuglogs (snd (loop h g)) = debuglogs g
       \<and> ticks (snd (loop h g)) = ticks g @
           [\<lparr>t_scene = scene g, t_camera = camera g, t_controls = controls g,
             t_error = Some (EngineError m)\<rparr>]
       \<and> (debugMode g \<longrightarrow> stats (snd (loop h g)) = map_option (\<lambda>(b, e). (b + 1, e)) (stats g))
       \<and> frames (snd (loop h g)) = frames g + 1
       \<and> length (ticks (snd (step h AnimationFrame (snd (loop h g)))))
           = length (ticks (snd (loop h g))) + 1"
proof -
  have ok: "stats_ok g" using assms(2) by (simp add: stats_ok_def)
  have e: "fst (loop h g) = Some (EngineError m)"
    using assms(3) by (auto simp: loop_error[OF ok assms(1)])
  have st: "debugMode g \<longrightarrow> stats (snd (loop h g)) = map_option (\<lambda>(b, e). (b + 1, e)) (stats g)"
    using assms
    by (auto simp: loop_def Let_def ended_def stats_begin_def stats_end_def
             split: sum.splits option.splits if_splits)
  have nx: "length (ticks (snd (step h AnimationFrame (snd (loop h g)))))
           = length (ticks (snd (loop h g))) + 1"
    by (simp add: loop_fields)
  show ?thesis
    using e st nx by (simp add: loop_fields loop_debuglogs)
qed

theorem throwing_tick_escapes_unlogged_witness:
  "renderer ((run faulty_host [Click, ModelLoaded 0, ModelLoaded 1]
                (constructor True False (800, 600)))\<lparr>frames := 0\<rparr>) \<noteq> None
   \<and> update_throws faulty_host (length (ticks ((run faulty_host [Click, ModelLoaded 0, ModelLoaded 1]
                (constructor True False (800, 600)))\<lparr>frames := 0\<rparr>))) = Some ''boom''
   \<and> fst (loop faulty_host ((run faulty_host [Click, ModelLoaded 0, ModelLoaded 1]
                (constructor True False (800, 600)))\<lparr>frames := 0\<rparr>)) = Some (EngineError ''boom'')
   \<and> frames (snd (loop faulty_host ((run faulty_host [Click, ModelLoaded 0, ModelLoaded 1]
                (constructor True False (800, 600)))\<lparr>frames := 0\<rparr>))) = 1"
proof -
  let ?g = "(run faulty_host [Click, ModelLoaded 0, ModelLoaded 1]
                (constructor True False (800, 600)))\<lparr>frames := 0\<rparr>"
  have 1: "renderer ?g \<noteq> None" by (simp add: game_defs faulty_host_def)
  have 2: "debugMode ?g \<longrightarrow> stats ?g \<noteq> None" by (simp add: game_defs faulty_host_def)
  have t: "length (ticks ?g) = 1" by (simp add: game_defs faulty_host_def)
  have 3: "update_throws faulty_host (length (ticks ?g)) = Some ''boom''"
    unfolding t by (simp add: faulty_host_def plain_host_def)
  have f: "frames ?g = 0" by simp
  show ?thesis
    using 1 3 f throwing_tick_escapes_unlogged[OF 1 2 disjI1[OF 3]] by simp
qed

text \<open>
  C7, as stated, fails: the controls update throws at the second tick; the error escapes
  the frame callback, and the console and the debug log hold nothing of it.
\<close>

theorem throwing_tick_counterexample:
  "escaped faulty_host [Click, ModelLoaded 0, ModelLoaded 1, AnimationFrame]
     (constructor True False (800, 600)) = [EngineError ''boom'']
   \<and> console (run faulty_host [Click, ModelLoaded 0, ModelLoaded 1, AnimationFrame]
       (constructor True False (800, 600))) = [''Game constructor'']
   \<and> debuglogs (run faulty_host [Click, ModelLoaded 0, ModelLoaded 1, AnimationFrame]
       (constructor True False (800, 600))) = Some []"
  by (simp add: game_defs faulty_host_def)

section \<open>Initialisation needs the click and the permission\<close>

lemma stopped_without_click:
  assumes "stopped g" "\<not> permission_pending g" "e \<noteq> Click"
  shows "stopped (snd (step h e g)) \<and> \<not> permission_pending (snd (step h e g))"
  using assms
  by (cases e)
     (simp_all add: stopped_def model_completed_none geometry_completed_none
        onTouchEnd_fields resizeViewport_fields)

lemma stopped_without_grant:
  assumes "stopped g" "deviceOrientationEvent h = WithRequestPermission"
      and "e \<noteq> PermissionResponse ''granted''"
  shows "stopped (snd (step h e g))"
  using assms
  by (cases e)
     (simp_all add: stopped_def model_completed_none geometry_completed_none
        onTouchEnd_fields resizeViewport_fields Let_def)

lemma stopped_undeclared:
  assumes "stopped g" "\<not> permission_pending g" "deviceOrientationEvent h = Undeclared"
  shows "stopped (snd (step h e g)) \<and> \<not> permission_pending (snd (step h e g))"
  using assms
  by (cases e)
     (simp_all add: stopped_def model_completed_none geometry_completed_none
        onTouchEnd_fields resizeViewport_fields Let_def)

lemma run_without_click:
  "stopped g \<Longrightarrow> \<not> permission_pending g \<Longrightarrow> Click \<notin> set es \<Longrightarrow> stopped (run h es g)"
proof (induction es arbitrary: g)
  case Nil
  then show ?case by simp
next
  case (Cons e es)
  have "e \<noteq> Click" "Click \<notin> set es" using Cons.prems(3) by auto
  then show ?case
    using stopped_without_click[OF Cons.prems(1,2), of e h] Cons.IH by simp
qed

lemma run_without_grant:
  "stopped g \<Longrightarrow> deviceOrientationEvent h = WithRequestPermission
   \<Longrightarrow> PermissionResponse ''granted'' \<notin> set es \<Longrightarrow> stopped (run h es g)"
proof (induction es arbitrary: g)
  case Nil
  then show ?case by simp
next
  case (Cons e es)
  have "e \<noteq> PermissionResponse ''granted''" "PermissionResponse ''granted'' \<notin> set es"
    using Cons.prems(3) by auto
  then show ?case
    using stopped_without_grant[OF Cons.prems(1,2), of e] Cons.IH[OF _ Cons.prems(2)] by simp
qed

lemma run_undeclared:
  "stopped g \<Longrightarrow> \<not> permission_pending g \<Longrightarrow> deviceOrientationEvent h = Undeclared
   \<Longrightarrow> stopped (run h es g)"
proof (induction es arbitrary: g)
  case Nil
  then show ?case by simp
next
  case (Cons e es)
  show ?case
    using stopped_undeclared[OF Cons.prems, of e] Cons.IH[OF _ _ Cons.prems(3)] by simp
qed

lemma renderer_none_stopped: "reached g \<Longrightarrow> renderer g = None \<Longrightarrow> stopped g"
  by (erule reached_cases) (auto simp: loading_def failed_with_def awaiting_def running_def)

text \<open>
  C10.  In every run of a game: if the renderer exists then the cover was clicked and, on a
  page that has \<^verbatim>\<open>DeviceOrientationEvent.requestPermission\<close>, the permission was answered
  with \<open>granted\<close>; if it does not exist then nothing is loaded or composed, the camera
  and the controls are untouched, no frame is requested and no tick has run.  A click alone
  initialises on a page whose \<^verbatim>\<open>DeviceOrientationEvent\<close> lacks the function, a click and
  the answer \<open>granted\<close> on a page that has it; on a page where the global
  \<^verbatim>\<open>DeviceOrientationEvent\<close> is not declared the listener of the click throws at line 72
  and the game is never initialised.
\<close>

theorem init_needs_click_and_grant:
  "(renderer (run h es (constructor dbg hp win)) \<noteq> None \<longrightarrow>
      Click \<in> set es
      \<and> (deviceOrientationEvent h = WithRequestPermission
           \<longrightarrow> PermissionResponse ''granted'' \<in> set es))
   \<and> (renderer (run h es (constructor dbg hp win)) = None \<longrightarrow>
        model_batch (run h es (constructor dbg hp win)) = None
        \<and> geometry_batch (run h es (constructor dbg hp win)) = None
        \<and> geometries (run h es (constructor dbg hp win)) = []
        \<and> models (run h es (constructor dbg hp win)) = []
        \<and> lights (run h es (constructor dbg hp win)) = []
        \<and> scene (run h es (constructor dbg hp win)) = []
        \<and> cam_position (camera (run h es (constructor dbg hp win))) = None
        \<and> \<not> controls (run h es (constructor dbg hp win))
        \<and> frames (run h es (constructor dbg hp win)) = 0
        \<and> ticks (run h es (constructor dbg hp win)) = [])
   \<and> (deviceOrientationEvent h = WithoutRequestPermission \<longrightarrow>
        renderer (run h [Click] (constructor dbg hp win)) \<noteq> None)
   \<and> (deviceOrientationEvent h = WithRequestPermission \<longrightarrow>
        renderer (run h [Click] (constructor dbg hp win)) = None
        \<and> renderer (run h [Click, PermissionResponse ''granted''] (constructor dbg hp win)) \<noteq> None)
   \<and> (deviceOrientationEvent h = Undeclared \<longrightarrow>
        renderer (run h es (constructor dbg hp win)) = None
        \<and> escaped h [Click] (constructor dbg hp win)
            = [ReferenceError ''DeviceOrientationEvent is not defined''])"
proof (intro conjI impI)
  let ?g0 = "constructor dbg hp win"
  have s0: "stopped ?g0" by (rule stopped_constructor)
  have p0: "\<not> permission_pending ?g0" by (simp add: constructor_def)
  {
    assume r: "renderer (run h es ?g0) \<noteq> None"
    show "Click \<in> set es"
    proof (rule ccontr)
      assume "Click \<notin> set es"
      then have "stopped (run h es ?g0)" using run_without_click[OF s0 p0] by blast
      then show False using r by (simp add: stopped_def)
    qed
  }
  {
    assume r: "renderer (run h es ?g0) \<noteq> None"
       and api: "deviceOrientationEvent h = WithRequestPermission"
    show "PermissionResponse ''granted'' \<in> set es"
    proof (rule ccontr)
      assume "PermissionResponse ''granted'' \<notin> set es"
      then have "stopped (run h es ?g0)" using run_without_grant[OF s0 api] by blast
      then show False using r by (simp add: stopped_def)
    qed
  }
  {
    assume "renderer (run h es ?g0) = None"
    then have st: "stopped (run h es ?g0)"
      using renderer_none_stopped[OF reached_from_constructor] by blast
    show "model_batch (run h es ?g0) = None" using st by (simp add: stopped_def)
    show "geometry_batch (run h es ?g0) = None" using st by (simp add: stopped_def)
    show "geometries (run h es ?g0) = []" using st by (simp add: stopped_def)
    show "models (run h es ?g0) = []" using st by (simp add: stopped_def)
    show "lights (run h es ?g0) = []" using st by (simp add: stopped_def)
    show "scene (run h es ?g0) = []" using st by (simp add: stopped_def)
    show "cam_position (camera (run h es ?g0)) = None" using st by (simp add: stopped_def)
    show "\<not> controls (run h es ?g0)" using st by (simp add: stopped_def)
    show "frames (run h es ?g0) = 0" using st by (simp add: stopped_def)
    show "ticks (run h es ?g0) = []" using st by (simp add: stopped_def)
  }
  {
    assume "deviceOrientationEvent h = WithoutRequestPermission"
    then show "renderer (run h [Click] ?g0) \<noteq> None"
      by (simp add: init_eq constructor_def)
  }
  {
    assume api: "deviceOrientationEvent h = WithRequestPermission"
    then show "renderer (run h [Click] ?g0) = None"
      by (simp add: constructor_def)
    show "renderer (run h [Click, PermissionResponse ''granted''] ?g0) \<noteq> None"
      using api by (simp add: init_eq constructor_def)
  }
  {
    assume un: "deviceOrientationEvent h = Undeclared"
    have "stopped (run h es ?g0)" by (rule run_undeclared[OF s0 p0 un])
    then show "renderer (run h es ?g0) = None" by (simp add: stopped_def)
    show "escaped h [Click] ?g0 = [ReferenceError ''DeviceOrientationEvent is not defined'']"
      using un by (simp add: constructor_def)
  }
qed

theorem init_needs_click_and_grant_witness:
  "renderer (run ios_host [Click, PermissionResponse ''denied''] (constructor True False (800, 600))) = None
   \<and> frames (run ios_host [Click, PermissionResponse ''denied''] (constructor True False (800, 600))) = 0
   \<and> ticks (run ios_host [Click, PermissionResponse ''denied''] (constructor True False (800, 600))) = []
   \<and> renderer (run ios_host [Click, PermissionResponse ''granted''] (constructor True False (800, 600)))
       \<noteq> None
   \<and> renderer (run plain_host [Click] (constructor True False (800, 600))) \<noteq> None
   \<and> renderer (run bare_host [Click, PermissionResponse ''granted'']
        (constructor True False (800, 600))) = None"
proof -
  have a: "renderer (run ios_host [Click, PermissionResponse ''denied'']
             (constructor True False (800, 600))) = None"
    by (simp add: game_defs ios_host_def)
  have api: "deviceOrientationEvent ios_host = WithRequestPermission"
    by (simp add: ios_host_def plain_host_def)
  have no: "deviceOrientationEvent plain_host = WithoutRequestPermission"
    by (simp add: plain_host_def)
  have un: "deviceOrientationEvent bare_host = Undeclared"
    by (simp add: bare_host_def plain_host_def)
  show ?thesis
    using a api no un
      init_needs_click_and_grant[of ios_host "[Click, PermissionResponse ''denied'']" True False "(800, 600)"]
      init_needs_click_and_grant[of plain_host "[]" True False "(800, 600)"]
      init_needs_click_and_grant[of bare_host "[Click, PermissionResponse ''granted'']" True False "(800, 600)"]
    by blast
qed

end
